theory Spec2Isabelle
  imports Complex_Main "HOL-Library.Sublist" "HOL-Library.AList"
begin

section \<open>Common types\<close>

text \<open>
  The exporter \<^verbatim>\<open>src/ops/dff_exporter.py\<close> is Python. Its floats are modelled as
  \<^typ>\<open>real\<close> (no rounding; \<^verbatim>\<open>==\<close> on vectors is equality), its exceptions as values
  of \<open>py_error\<close>, returned as \<open>Inl\<close> of a sum type, and \<^verbatim>\<open>None\<close> as \<open>None\<close> of
  an option type. Lengths and positions produced by \<^verbatim>\<open>len\<close> and \<^verbatim>\<open>enumerate\<close> are
  \<^typ>\<open>nat\<close>; a frame's parent index, which may be \<open>-1\<close>, is \<^typ>\<open>int\<close>.
\<close>

datatype py_error =
  KeyError | IndexError | ZeroDivisionError | TypeError | ValueError | AttributeError

definition ebind :: "'e + 'a \<Rightarrow> ('a \<Rightarrow> 'e + 'b) \<Rightarrow> 'e + 'b" where
  "ebind m f = (case m of Inl e \<Rightarrow> Inl e | Inr x \<Rightarrow> f x)"

text \<open>\<^verbatim>\<open>xs[i]\<close> for an index that is not negative.\<close>

definition nth_py :: "'a list \<Rightarrow> nat \<Rightarrow> py_error + 'a" where
  "nth_py xs i = (if i < length xs then Inr (xs ! i) else Inl IndexError)"

type_synonym vec3 = "real \<times> real \<times> real"
type_synonym row4 = "real \<times> real \<times> real \<times> real"
type_synonym mat4 = "row4 \<times> row4 \<times> row4 \<times> row4"
type_synonym mat3 = "vec3 \<times> vec3 \<times> vec3"

text \<open>The operations of \<^verbatim>\<open>mathutils\<close> that the exporter applies to 4x4 matrices (given
  by rows). Multiplying a 4x4 matrix with a 3D vector extends the vector by \<open>w = 1\<close> and
  keeps three components.\<close>

fun to_translation :: "mat4 \<Rightarrow> vec3" where
  "to_translation ((a0, a1, a2, a3), (b0, b1, b2, b3), (c0, c1, c2, c3), r3) = (a3, b3, c3)"

fun to_3x3 :: "mat4 \<Rightarrow> mat3" where
  "to_3x3 ((a0, a1, a2, a3), (b0, b1, b2, b3), (c0, c1, c2, c3), r3) =
     ((a0, a1, a2), (b0, b1, b2), (c0, c1, c2))"

fun transposed3 :: "mat3 \<Rightarrow> mat3" where
  "transposed3 ((a0, a1, a2), (b0, b1, b2), (c0, c1, c2)) =
     ((a0, b0, c0), (a1, b1, c1), (a2, b2, c2))"

fun transposed4 :: "mat4 \<Rightarrow> mat4" where
  "transposed4 ((a0, a1, a2, a3), (b0, b1, b2, b3), (c0, c1, c2, c3), (d0, d1, d2, d3)) =
     ((a0, b0, c0, d0), (a1, b1, c1, d1), (a2, b2, c2, d2), (a3, b3, c3, d3))"

fun vadd :: "vec3 \<Rightarrow> vec3 \<Rightarrow> vec3" where
  "vadd (x, y, z) (x', y', z') = (x + x', y + y', z + z')"

fun vscale :: "real \<Rightarrow> vec3 \<Rightarrow> vec3" where
  "vscale k (x, y, z) = (k * x, k * y, k * z)"

fun mat_vec :: "mat4 \<Rightarrow> vec3 \<Rightarrow> vec3" where
  "mat_vec ((a0, a1, a2, a3), (b0, b1, b2, b3), (c0, c1, c2, c3), r3) (x, y, z) =
     (a0 * x + a1 * y + a2 * z + a3,
      b0 * x + b1 * y + b2 * z + b3,
      c0 * x + c1 * y + c2 * z + c3)"

text \<open>\<^verbatim>\<open>clear_extension\<close>: the string up to its last period, or all of it.\<close>

definition clear_extension :: "string \<Rightarrow> string" where
  "clear_extension s =
     (case dropWhile (\<lambda>c. c \<noteq> CHR ''.'') (rev s) of
        [] \<Rightarrow> s
      | dot # front \<Rightarrow> rev front)"

section \<open>Vertex deduplication\<close>

text \<open>
  The dictionaries built per corner in \<^verbatim>\<open>populate_geometry_with_mesh_data\<close>
  (keys \<^verbatim>\<open>idx, tmp_idx, co, normal, uvs, vert_cols, bones\<close>) and per face
  (keys \<^verbatim>\<open>verts, mat_idx\<close>). An entry of a face's \<^verbatim>\<open>verts\<close> is an index or, after
  a lookup that found nothing, \<^verbatim>\<open>None\<close>.
\<close>

record vert =
  v_idx :: nat
  v_tmp_idx :: nat
  v_co :: vec3
  v_normal :: vec3
  v_uvs :: "(real \<times> real) list"
  v_vert_cols :: "real list list"
  v_bones :: "(nat \<times> real) list"

record face =
  f_verts :: "nat option list"
  f_mat_idx :: int

text \<open>\<^verbatim>\<open>find_vert_idx_by_tmp_idx\<close>: the first position whose \<^verbatim>\<open>tmp_idx\<close> is \<open>t\<close>;
  falling off the loop returns \<^verbatim>\<open>None\<close>.\<close>

fun find_from :: "nat \<Rightarrow> vert list \<Rightarrow> nat \<Rightarrow> nat option" where
  "find_from i [] t = None"
| "find_from i (v # vs) t = (if v_tmp_idx v = t then Some i else find_from (Suc i) vs t)"

definition find_vert_idx_by_tmp_idx :: "vert list \<Rightarrow> nat \<Rightarrow> nat option" where
  "find_vert_idx_by_tmp_idx vs t = find_from 0 vs t"

text \<open>The comparison of the inner loop: \<^verbatim>\<open>idx\<close>, \<^verbatim>\<open>normal\<close> and \<^verbatim>\<open>uvs\<close>.\<close>

definition same_vert :: "vert \<Rightarrow> vert \<Rightarrow> bool" where
  "same_vert a b \<longleftrightarrow> v_idx a = v_idx b \<and> v_normal a = v_normal b \<and> v_uvs a = v_uvs b"

text \<open>\<^verbatim>\<open>del verts[j]\<close>.\<close>

definition del_at :: "'a list \<Rightarrow> nat \<Rightarrow> 'a list" where
  "del_at xs j = take j xs @ drop (Suc j) xs"

text \<open>The inner \<^verbatim>\<open>while j < len(verts)\<close> loop, for a fixed \<^verbatim>\<open>vert\<close>.\<close>

function dedup_inner ::
  "vert \<Rightarrow> nat \<Rightarrow> vert list \<Rightarrow> (nat \<rightharpoonup> nat) \<Rightarrow> vert list \<times> (nat \<rightharpoonup> nat)" where
  "dedup_inner v j vs removed_verts =
     (if j < length vs then
        (let vert2 = vs ! j in
         if same_vert v vert2
         then dedup_inner v j (del_at vs j) (removed_verts(v_tmp_idx vert2 \<mapsto> v_tmp_idx v))
         else dedup_inner v (j + 1) vs removed_verts)
      else (vs, removed_verts))"
  by pat_completeness auto
termination
  by (relation "measure (\<lambda>(v, j, vs, r). length vs - j)") (auto simp: del_at_def)

declare dedup_inner.simps [simp del]

lemma dedup_inner_length: "length (fst (dedup_inner v j vs r)) \<le> length vs"
proof (induction v j vs r rule: dedup_inner.induct)
  case (1 v j vs r)
  show ?case
  proof (cases "j < length vs")
    case False
    then show ?thesis by (simp add: dedup_inner.simps [of v j vs r])
  next
    case lt: True
    show ?thesis
    proof (cases "same_vert v (vs ! j)")
      case True
      have "length (fst (dedup_inner v j (del_at vs j) (r(v_tmp_idx (vs ! j) \<mapsto> v_tmp_idx v))))
              \<le> length (del_at vs j)"
        by (rule "1.IH"(1) [OF lt refl True])
      also have "\<dots> \<le> length vs" by (simp add: del_at_def)
      finally show ?thesis using lt True
        by (simp add: dedup_inner.simps [of v j vs r])
    next
      case False
      have "length (fst (dedup_inner v (j + 1) vs r)) \<le> length vs"
        by (rule "1.IH"(2) [OF lt refl False])
      then show ?thesis using lt False
        by (simp add: dedup_inner.simps [of v j vs r])
    qed
  qed
qed

text \<open>The outer \<^verbatim>\<open>while i < len(verts)\<close> loop.\<close>

function dedup_outer ::
  "nat \<Rightarrow> vert list \<Rightarrow> (nat \<rightharpoonup> nat) \<Rightarrow> vert list \<times> (nat \<rightharpoonup> nat)" where
  "dedup_outer i vs removed_verts =
     (if i < length vs then
        (case dedup_inner (vs ! i) (i + 1) vs removed_verts of
           (vs', removed_verts') \<Rightarrow> dedup_outer (i + 1) vs' removed_verts')
      else (vs, removed_verts))"
  by pat_completeness auto
termination
proof (relation "measure (\<lambda>(i, vs, r). length vs - i)", goal_cases)
  case 1
  show ?case by simp
next
  case (2 i vs r vs' r')
  have "length (fst (dedup_inner (vs ! i) (i + 1) vs r)) \<le> length vs"
    by (rule dedup_inner_length)
  with 2 show ?case by (cases "dedup_inner (vs ! i) (i + 1) vs r") auto
qed

declare dedup_outer.simps [simp del]

text \<open>The update of one entry of \<^verbatim>\<open>face['verts']\<close>. \<^verbatim>\<open>None in removed_verts\<close> is
  false (the keys are integers), and no \<^verbatim>\<open>tmp_idx\<close> equals \<^verbatim>\<open>None\<close>.\<close>

definition remap_idx :: "vert list \<Rightarrow> (nat \<rightharpoonup> nat) \<Rightarrow> nat option \<Rightarrow> nat option" where
  "remap_idx vs removed_verts vert_idx =
     (case vert_idx of
        None \<Rightarrow> None
      | Some k \<Rightarrow>
          (case removed_verts k of
             Some t \<Rightarrow> find_vert_idx_by_tmp_idx vs t
           | None \<Rightarrow> find_vert_idx_by_tmp_idx vs k))"

definition remap_face :: "vert list \<Rightarrow> (nat \<rightharpoonup> nat) \<Rightarrow> face \<Rightarrow> face" where
  "remap_face vs removed_verts f = f\<lparr>f_verts := map (remap_idx vs removed_verts) (f_verts f)\<rparr>"

text \<open>\<^verbatim>\<open>cleanup_duplicate_verts\<close> mutates both lists in place; the model returns them.
  The argument \<^verbatim>\<open>obj\<close> is not used by the source.\<close>

definition cleanup_duplicate_verts :: "vert list \<Rightarrow> face list \<Rightarrow> vert list \<times> face list" where
  "cleanup_duplicate_verts vs faces =
     (case dedup_outer 0 vs Map.empty of
        (vs', removed_verts) \<Rightarrow> (vs', map (remap_face vs' removed_verts) faces))"


section \<open>Geometry builder\<close>

text \<open>
  The evaluated, triangulated mesh that \<^verbatim>\<open>convert_to_mesh\<close>, \<^verbatim>\<open>triangulate_mesh\<close> and
  \<^verbatim>\<open>calc_normals_split\<close> hand to the exporter: the host's buffers, as the exporter
  reads them. A vertex group entry is the pair \<^verbatim>\<open>(group.group, group.weight)\<close>; a UV or
  colour layer is its \<^verbatim>\<open>data\<close>, indexed by loop.
\<close>

record mloop =
  ml_vertex_index :: nat
  ml_normal :: vec3

record mvertex =
  mv_co :: vec3
  mv_groups :: "(nat \<times> real) list"

record polygon =
  pl_material_index :: int
  pl_loop_indices :: "nat list"

record mesh =
  me_polygons :: "polygon list"
  me_loops :: "mloop list"
  me_vertices :: "mvertex list"
  me_uv_layers :: "(real \<times> real) list list"
  me_vertex_colors :: "real list list list"

text \<open>A bone of an armature. The custom properties \<^verbatim>\<open>bone["bone_id"]\<close> and
  \<^verbatim>\<open>bone["type"]\<close> may be absent (\<^verbatim>\<open>KeyError\<close>); \<open>b_inverted\<close> is the host's
  \<^verbatim>\<open>bone.matrix_local.inverted()\<close>, which raises \<^verbatim>\<open>ValueError\<close> on a singular matrix.\<close>

record bone =
  b_name :: string
  b_parent :: "string option"
  b_matrix_local :: mat4
  b_inverted :: "mat4 option"
  b_user_data :: "string option"
  b_bone_id :: "int option"
  b_type :: "int option"

record armature =
  ar_bones :: "bone list"

record modifier =
  md_type :: string
  md_object :: "armature option"

text \<open>Modelled from the spec: the classes of \<^verbatim>\<open>gtaLib/dff.py\<close> are not under
  \<^verbatim>\<open>src/\<close>. A skin binding holds, per bone, an inverse bind matrix and, per vertex,
  four bone indices and four weights; \<^verbatim>\<open>dff.SkinPLG()\<close> starts with empty lists.\<close>

record skin_plg =
  sk_num_bones :: nat
  sk_bone_matrices :: "mat4 list"
  sk_vertex_bone_indices :: "nat list list"
  sk_vertex_bone_weights :: "real list list"

definition new_SkinPLG :: skin_plg where
  "new_SkinPLG = \<lparr>sk_num_bones = 0, sk_bone_matrices = [],
     sk_vertex_bone_indices = [], sk_vertex_bone_weights = []\<rparr>"

type_synonym rgba = "int \<times> int \<times> int \<times> int"
type_synonym triangle = "nat option \<times> nat option \<times> int \<times> nat option"

datatype user_data = UserData string

text \<open>Modelled from the spec: a UV animation is a named track of keyed frames (time, six
  floats, previous frame) with a duration; \<^verbatim>\<open>dff.UVAnim()\<close> starts with no frame and
  duration 0.\<close>

record uv_frame =
  uf_time :: real
  uf_uv :: "real list"
  uf_prev :: int

record uv_anim =
  ua_name :: string
  ua_duration :: real
  ua_frames :: "uv_frame list"

definition new_UVAnim :: uv_anim where
  "new_UVAnim = \<lparr>ua_name = [], ua_duration = 0, ua_frames = []\<rparr>"

text \<open>Of an exported material only the UV animation reference is modelled; colour,
  surface properties, textures and the other plugins are host property reads that no
  other part of the exporter consumes.\<close>

record material =
  mt_uv_anim :: "string option"

text \<open>Modelled from the spec: \<^verbatim>\<open>dff.Geometry()\<close> starts with empty buffers and no
  extension.\<close>

record geometry =
  g_vertices :: "vec3 list"
  g_normals :: "vec3 list"
  g_prelit_colors :: "rgba list"
  g_uv_layers :: "(real \<times> real) list list"
  g_triangles :: "triangle list"
  g_bounding_sphere :: "(real \<times> real \<times> real \<times> real) option"
  g_surface_properties :: "(real \<times> real \<times> real) option"
  g_materials :: "material list"
  g_ext_skin :: "skin_plg option"
  g_ext_extra_vert_color :: "rgba list option"
  g_ext_user_data :: "user_data option"
  g_export_normals :: bool
  g_write_mesh_plg :: bool
  g_light :: bool
  g_modulate_color :: bool
  g_pipeline :: "int option"

definition new_Geometry :: geometry where
  "new_Geometry = \<lparr>g_vertices = [], g_normals = [], g_prelit_colors = [], g_uv_layers = [],
     g_triangles = [], g_bounding_sphere = None, g_surface_properties = None,
     g_materials = [], g_ext_skin = None, g_ext_extra_vert_color = None,
     g_ext_user_data = None, g_export_normals = False, g_write_mesh_plg = False,
     g_light = False, g_modulate_color = False, g_pipeline = None\<rparr>"

subsection \<open>Materials and UV animation\<close>

text \<open>What \<^verbatim>\<open>material_helper.get_uv_animation\<close> reads of a material: the addon's
  properties, whether the principled wrapper exists (Blender 2.80 and later) and has a
  mapping node, and the animation data of the node tree (absent, without an action, or
  with the curves of its action). A keyframe point is its \<^verbatim>\<open>co\<close>.\<close>

record fcurve =
  fc_array_index :: nat
  fc_data_path :: string
  fc_keyframe_points :: "(real \<times> real) list"

datatype anim_data = NoAction | Action "fcurve list"

record b_material =
  bm_export_animation :: bool
  bm_animation_name :: string
  bm_principled :: bool
  bm_has_mapping_node :: bool
  bm_anim_data :: "anim_data option"

text \<open>The dictionary \<^verbatim>\<open>uv_offset\<close>.\<close>

definition uv_offset :: "string \<Rightarrow> nat option" where
  \<open>uv_offset data_path =
     (if data_path = ''nodes["Mapping"].inputs[1].default_value'' then Some 4
      else if data_path = ''nodes["Mapping"].inputs[3].default_value'' then Some 1
      else None)\<close>

text \<open>The body of \<^verbatim>\<open>for i, frame in enumerate(curve.keyframe_points)\<close>, with
  \<open>slot = off + curve.array_index\<close>.\<close>

definition keyframe_step :: "int \<Rightarrow> nat \<Rightarrow> nat \<Rightarrow> real \<times> real \<Rightarrow> uv_anim \<Rightarrow> py_error + uv_anim" where
  "keyframe_step fps slot i co anim =
     (let frames1 =
            (if length (ua_frames anim) \<le> i
             then ua_frames anim @ [\<lparr>uf_time = 0, uf_uv = replicate 6 0, uf_prev = int i - 1\<rparr>]
             else ua_frames anim)
      in ebind (nth_py frames1 i) (\<lambda>fr.
           if \<not> slot < length (uf_uv fr) then Inl IndexError
           else if fps = 0 then Inl ZeroDivisionError
           else
             let fr' = fr\<lparr>uf_uv := (uf_uv fr)[slot := snd co], uf_time := fst co / real_of_int fps\<rparr>
             in Inr (anim\<lparr>ua_frames := frames1[i := fr'],
                         ua_duration := max (uf_time fr') (ua_duration anim)\<rparr>)))"

fun keyframes_loop :: "int \<Rightarrow> nat \<Rightarrow> nat \<Rightarrow> (real \<times> real) list \<Rightarrow> uv_anim \<Rightarrow> py_error + uv_anim" where
  "keyframes_loop fps slot i [] anim = Inr anim"
| "keyframes_loop fps slot i (co # points) anim =
     ebind (keyframe_step fps slot i co anim) (keyframes_loop fps slot (i + 1) points)"

text \<open>\<^verbatim>\<open>for curve in anim_data.action.fcurves\<close>, with its two \<^verbatim>\<open>continue\<close>s.\<close>

fun curves_loop :: "int \<Rightarrow> fcurve list \<Rightarrow> uv_anim \<Rightarrow> py_error + uv_anim" where
  "curves_loop fps [] anim = Inr anim"
| "curves_loop fps (curve # curves) anim =
     (if fc_array_index curve > 1 then curves_loop fps curves anim
      else case uv_offset (fc_data_path curve) of
             None \<Rightarrow> curves_loop fps curves anim
           | Some off \<Rightarrow>
               ebind (keyframes_loop fps (off + fc_array_index curve) 0
                        (fc_keyframe_points curve) anim)
                     (curves_loop fps curves))"

text \<open>\<^verbatim>\<open>get_uv_animation\<close>; \<open>fps\<close> is \<^verbatim>\<open>bpy.context.scene.render.fps\<close>. Every path that
  does not reach \<^verbatim>\<open>return anim\<close> returns \<^verbatim>\<open>None\<close>.\<close>

definition get_uv_animation :: "int \<Rightarrow> b_material \<Rightarrow> py_error + uv_anim option" where
  "get_uv_animation fps m =
     (let anim = new_UVAnim in
      if \<not> bm_export_animation m then Inr None
      else
        let anim = anim\<lparr>ua_name := bm_animation_name m\<rparr> in
        if bm_principled m \<and> bm_has_mapping_node m then
          (case bm_anim_data m of
             None \<Rightarrow> Inr None
           | Some NoAction \<Rightarrow> Inl AttributeError
           | Some (Action fcurves) \<Rightarrow> ebind (curves_loop fps fcurves anim) (\<lambda>a. Inr (Some a)))
        else Inr None)"

text \<open>\<^verbatim>\<open>generate_material_list\<close>: the materials of the slots that are not \<^verbatim>\<open>None\<close>, and
  the animations appended to \<^verbatim>\<open>self.dff.uvanim_dict\<close>.\<close>

fun generate_material_list ::
  "int \<Rightarrow> b_material option list \<Rightarrow> material list \<Rightarrow> uv_anim list
     \<Rightarrow> py_error + (material list \<times> uv_anim list)" where
  "generate_material_list fps [] materials uvanim_dict = Inr (materials, uvanim_dict)"
| "generate_material_list fps (None # ms) materials uvanim_dict =
     generate_material_list fps ms materials uvanim_dict"
| "generate_material_list fps (Some b_material # ms) materials uvanim_dict =
     ebind (get_uv_animation fps b_material) (\<lambda>anim.
       case anim of
         None \<Rightarrow> generate_material_list fps ms (materials @ [\<lparr>mt_uv_anim = None\<rparr>]) uvanim_dict
       | Some a \<Rightarrow> generate_material_list fps ms (materials @ [\<lparr>mt_uv_anim = Some (ua_name a)\<rparr>])
                     (uvanim_dict @ [a]))"

subsection \<open>Scene objects\<close>

text \<open>
  What the exporter reads of a scene object: its name, the name of its parent
  (\<^verbatim>\<open>obj.parent.name\<close>, \<open>None\<close> when \<^verbatim>\<open>obj.parent is None\<close>), its matrices, the custom
  property \<^verbatim>\<open>dff_user_data\<close>, its kind, the addon's properties \<^verbatim>\<open>obj.dff\<close>, and for a
  mesh the modifiers, the vertex groups (name to index), the evaluated mesh, the
  bounding box and dimensions and the material slots; for an armature the bones of
  \<^verbatim>\<open>obj.data.bones\<close>. \<open>o_pipeline\<close> is the value that \<^verbatim>\<open>populate_atomic\<close> parses from
  the pipeline strings (\<open>None\<close> when it is \<^verbatim>\<open>'NONE'\<close> or does not parse).
\<close>

datatype obj_type = MESH | EMPTY | ARMATURE | OTHER

record obj =
  o_name :: string
  o_parent :: "string option"
  o_matrix_local :: mat4
  o_matrix_world :: mat4
  o_user_data :: "string option"
  o_type :: obj_type
  o_clump :: int
  o_bones :: "bone list"
  o_modifiers :: "modifier list"
  o_vertex_groups :: "string \<rightharpoonup> nat"
  o_mesh :: mesh
  o_bound_box :: "vec3 list"
  o_dimensions :: vec3
  o_materials :: "b_material option list"
  o_data_user_data :: "string option"
  o_day_cols :: bool
  o_night_cols :: bool
  o_uv_map1 :: bool
  o_uv_map2 :: bool
  o_export_normals :: bool
  o_export_binsplit :: bool
  o_light :: bool
  o_modulate_color :: bool
  o_pipeline :: "int option"

subsection \<open>Skin binding and bone groups\<close>

text \<open>The first modifier of type \<^verbatim>\<open>'ARMATURE'\<close> decides, also when it has no object.\<close>

fun find_armature :: "modifier list \<Rightarrow> armature option" where
  "find_armature [] = None"
| "find_armature (m # ms) = (if md_type m = ''ARMATURE'' then md_object m else find_armature ms)"

text \<open>\<^verbatim>\<open>for index, bone in enumerate(bones)\<close> of \<^verbatim>\<open>get_skin_plg_and_bone_groups\<close>; a bone
  without a vertex group of its name is skipped (\<^verbatim>\<open>except KeyError: pass\<close>).\<close>

fun skin_bones_loop ::
  "(string \<rightharpoonup> nat) \<Rightarrow> nat \<Rightarrow> bone list \<Rightarrow> skin_plg \<Rightarrow> (nat \<rightharpoonup> nat)
     \<Rightarrow> py_error + (skin_plg \<times> (nat \<rightharpoonup> nat))" where
  "skin_bones_loop vertex_groups index [] skin bone_groups = Inr (skin, bone_groups)"
| "skin_bones_loop vertex_groups index (bone # rest) skin bone_groups =
     (case b_inverted bone of
        None \<Rightarrow> Inl ValueError
      | Some inverted \<Rightarrow>
          let skin' = skin\<lparr>sk_bone_matrices := sk_bone_matrices skin @ [transposed4 inverted]\<rparr>;
              bone_groups' = (case vertex_groups (b_name bone) of
                                None \<Rightarrow> bone_groups
                              | Some g \<Rightarrow> bone_groups(g \<mapsto> index))
          in skin_bones_loop vertex_groups (index + 1) rest skin' bone_groups')"

definition get_skin_plg_and_bone_groups ::
  "obj \<Rightarrow> py_error + (skin_plg option \<times> (nat \<rightharpoonup> nat))" where
  "get_skin_plg_and_bone_groups ob =
     (case find_armature (o_modifiers ob) of
        None \<Rightarrow> Inr (None, Map.empty)
      | Some armature \<Rightarrow>
          ebind (skin_bones_loop (o_vertex_groups ob) 0 (ar_bones armature)
                   (new_SkinPLG\<lparr>sk_num_bones := length (ar_bones armature)\<rparr>) Map.empty)
                (\<lambda>(skin, bone_groups). Inr (Some skin, bone_groups)))"

subsection \<open>Collecting corners\<close>

text \<open>\<^verbatim>\<open>for group in vertex.groups\<close>: at most four influences, each of a group that maps
  to a bone and has a positive weight.\<close>

fun collect_bones :: "(nat \<rightharpoonup> nat) \<Rightarrow> (nat \<times> real) list \<Rightarrow> (nat \<times> real) list \<Rightarrow> (nat \<times> real) list" where
  "collect_bones bone_groups [] bs = bs"
| "collect_bones bone_groups (g # gs) bs =
     (if length bs \<ge> 4 then bs
      else case bone_groups (fst g) of
             Some b \<Rightarrow> (if snd g > 0 then collect_bones bone_groups gs (bs @ [(b, snd g)])
                        else collect_bones bone_groups gs bs)
           | None \<Rightarrow> collect_bones bone_groups gs bs)"

text \<open>\<^verbatim>\<open>[layer.data[loop_index] for layer in layers]\<close>.\<close>

fun layer_values :: "'a list list \<Rightarrow> nat \<Rightarrow> py_error + 'a list" where
  "layer_values [] loop_index = Inr []"
| "layer_values (layer # layers) loop_index =
     ebind (nth_py layer loop_index) (\<lambda>x.
       ebind (layer_values layers loop_index) (\<lambda>xs. Inr (x # xs)))"

text \<open>The body of \<^verbatim>\<open>for loop_index in polygon.loop_indices\<close>: the corner appended to
  \<^verbatim>\<open>vertices_list\<close>, whose \<^verbatim>\<open>tmp_idx\<close> is the length of that list.\<close>

definition collect_corner ::
  "mesh \<Rightarrow> (nat \<rightharpoonup> nat) \<Rightarrow> nat \<Rightarrow> vert list \<Rightarrow> py_error + vert list" where
  "collect_corner m bone_groups loop_index vertices_list =
     ebind (nth_py (me_loops m) loop_index) (\<lambda>loop.
     ebind (nth_py (me_vertices m) (ml_vertex_index loop)) (\<lambda>vertex.
     ebind (layer_values (me_uv_layers m) loop_index) (\<lambda>uvs.
     ebind (layer_values (me_vertex_colors m) loop_index) (\<lambda>vert_cols.
       Inr (vertices_list @
              [\<lparr>v_idx = ml_vertex_index loop,
                v_tmp_idx = length vertices_list,
                v_co = mv_co vertex,
                v_normal = ml_normal loop,
                v_uvs = uvs,
                v_vert_cols = vert_cols,
                v_bones = collect_bones bone_groups (mv_groups vertex) []\<rparr>])))))"

fun collect_loops ::
  "mesh \<Rightarrow> (nat \<rightharpoonup> nat) \<Rightarrow> nat list \<Rightarrow> vert list \<Rightarrow> py_error + vert list" where
  "collect_loops m bone_groups [] vertices_list = Inr vertices_list"
| "collect_loops m bone_groups (loop_index # rest) vertices_list =
     ebind (collect_corner m bone_groups loop_index vertices_list)
           (collect_loops m bone_groups rest)"

text \<open>\<^verbatim>\<open>for idx, polygon in enumerate(mesh.polygons)\<close>.\<close>

fun collect_polygons ::
  "mesh \<Rightarrow> (nat \<rightharpoonup> nat) \<Rightarrow> nat \<Rightarrow> polygon list \<Rightarrow> vert list \<Rightarrow> face list
     \<Rightarrow> py_error + (vert list \<times> face list)" where
  "collect_polygons m bone_groups idx [] vertices_list faces_list = Inr (vertices_list, faces_list)"
| "collect_polygons m bone_groups idx (p # ps) vertices_list faces_list =
     (let faces_list' = faces_list @
            [\<lparr>f_verts = [Some (idx * 3), Some (idx * 3 + 1), Some (idx * 3 + 2)],
              f_mat_idx = pl_material_index p\<rparr>]
      in ebind (collect_loops m bone_groups (pl_loop_indices p) vertices_list) (\<lambda>vertices_list'.
           collect_polygons m bone_groups (idx + 1) ps vertices_list' faces_list'))"

subsection \<open>Filling the geometry\<close>

text \<open>\<^verbatim>\<open>int(col * 255)\<close> truncates towards zero; \<^verbatim>\<open>dff.RGBA._make\<close> wants exactly four
  values.\<close>

definition py_int :: "real \<Rightarrow> int" where
  "py_int x = (if x \<ge> 0 then \<lfloor>x\<rfloor> else \<lceil>x\<rceil>)"

definition make_rgba :: "real list \<Rightarrow> py_error + rgba" where
  "make_rgba cols =
     (case map (\<lambda>col. py_int (col * 255)) cols of
        [r, g, b, a] \<Rightarrow> Inr (r, g, b, a)
      | _ \<Rightarrow> Inl TypeError)"

text \<open>\<^verbatim>\<open>max_uv_layers = (obj.dff.uv_map2 + 1) * obj.dff.uv_map1\<close>, on booleans.\<close>

definition max_uv_layers :: "obj \<Rightarrow> nat" where
  "max_uv_layers ob = (of_bool (o_uv_map2 ob) + 1) * of_bool (o_uv_map1 ob)"

text \<open>\<^verbatim>\<open>for index, uv in enumerate(vertex['uvs'])\<close>; the inner \<^verbatim>\<open>while\<close> appends empty
  layers until \<open>index\<close> is a position of \<^verbatim>\<open>geometry.uv_layers\<close>.\<close>

fun uv_loop ::
  "nat \<Rightarrow> nat \<Rightarrow> (real \<times> real) list \<Rightarrow> (real \<times> real) list list \<Rightarrow> (real \<times> real) list list" where
  "uv_loop mx index [] uv_layers = uv_layers"
| "uv_loop mx index (uv # uvs) uv_layers =
     (if index \<ge> mx then uv_layers
      else
        let padded = uv_layers @ replicate (index + 1 - length uv_layers) [];
            uv_layers' = padded[index := padded ! index @ [(fst uv, 1 - snd uv)]]
        in uv_loop mx (index + 1) uvs uv_layers')"

text \<open>\<^verbatim>\<open>for index, bone in enumerate(vertex['bones'])\<close> on the two arrays
  \<^verbatim>\<open>[0,0,0,0]\<close> that were just appended.\<close>

fun set_bones ::
  "nat \<Rightarrow> (nat \<times> real) list \<Rightarrow> nat list \<times> real list \<Rightarrow> py_error + (nat list \<times> real list)" where
  "set_bones index [] arrays = Inr arrays"
| "set_bones index (bone # rest) (indices, weights) =
     (if index < length indices \<and> index < length weights
      then set_bones (index + 1) rest (indices[index := fst bone], weights[index := snd bone])
      else Inl IndexError)"

text \<open>The body of \<^verbatim>\<open>for vertex in vertices_list\<close>; the state is the geometry, the extra
  colour list and the skin.\<close>

definition vertex_step ::
  "bool \<Rightarrow> bool \<Rightarrow> nat \<Rightarrow> vert \<Rightarrow> geometry \<times> rgba list \<times> skin_plg option
     \<Rightarrow> py_error + (geometry \<times> rgba list \<times> skin_plg option)" where
  "vertex_step has_prelit_colors has_night_colors mx vertex st =
     (case st of (g, extra_vert, skin_plg) \<Rightarrow>
      let g1 = g\<lparr>g_vertices := g_vertices g @ [v_co vertex],
                 g_normals := g_normals g @ [v_normal vertex]\<rparr>
      in
      ebind (if has_prelit_colors
             then ebind (nth_py (v_vert_cols vertex) 0) (\<lambda>c. ebind (make_rgba c) (\<lambda>col.
                    Inr (g1\<lparr>g_prelit_colors := g_prelit_colors g1 @ [col]\<rparr>)))
             else Inr g1) (\<lambda>g2.
      ebind (if has_night_colors
             then ebind (nth_py (v_vert_cols vertex) 1) (\<lambda>c. ebind (make_rgba c) (\<lambda>col.
                    Inr (extra_vert @ [col])))
             else Inr extra_vert) (\<lambda>extra_vert'.
      let g3 = g2\<lparr>g_uv_layers := uv_loop mx 0 (v_uvs vertex) (g_uv_layers g2)\<rparr> in
      case skin_plg of
        None \<Rightarrow> Inr (g3, extra_vert', None)
      | Some skin \<Rightarrow>
          ebind (set_bones 0 (v_bones vertex) ([0, 0, 0, 0], [0, 0, 0, 0])) (\<lambda>(indices, weights).
            Inr (g3, extra_vert',
                 Some (skin\<lparr>sk_vertex_bone_indices := sk_vertex_bone_indices skin @ [indices],
                            sk_vertex_bone_weights := sk_vertex_bone_weights skin @ [weights]\<rparr>))))))"

fun vertices_loop ::
  "bool \<Rightarrow> bool \<Rightarrow> nat \<Rightarrow> vert list \<Rightarrow> geometry \<times> rgba list \<times> skin_plg option
     \<Rightarrow> py_error + (geometry \<times> rgba list \<times> skin_plg option)" where
  "vertices_loop hp hn mx [] st = Inr st"
| "vertices_loop hp hn mx (vertex # rest) st =
     ebind (vertex_step hp hn mx vertex st) (vertices_loop hp hn mx rest)"

definition populate_geometry_from_vertices_data ::
  "vert list \<Rightarrow> skin_plg option \<Rightarrow> mesh \<Rightarrow> obj \<Rightarrow> geometry \<Rightarrow> py_error + geometry" where
  "populate_geometry_from_vertices_data vertices_list skin_plg m ob g =
     (let has_prelit_colors = (length (me_vertex_colors m) > 0 \<and> o_day_cols ob);
          has_night_colors = (length (me_vertex_colors m) > 1 \<and> o_night_cols ob)
      in ebind (vertices_loop has_prelit_colors has_night_colors (max_uv_layers ob)
                  vertices_list (g, [], skin_plg))
           (\<lambda>(g', extra_vert, skin_plg').
              let g1 = (case skin_plg' of None \<Rightarrow> g' | Some skin \<Rightarrow> g'\<lparr>g_ext_skin := Some skin\<rparr>)
              in Inr (if has_night_colors then g1\<lparr>g_ext_extra_vert_color := Some extra_vert\<rparr>
                      else g1)))"

text \<open>\<^verbatim>\<open>populate_geometry_from_faces_data\<close>: \<^verbatim>\<open>verts[1]\<close>, \<^verbatim>\<open>verts[0]\<close>, the material
  index, \<^verbatim>\<open>verts[2]\<close>.\<close>

definition face_triangle :: "face \<Rightarrow> py_error + triangle" where
  "face_triangle f =
     ebind (nth_py (f_verts f) 1) (\<lambda>b.
     ebind (nth_py (f_verts f) 0) (\<lambda>a.
     ebind (nth_py (f_verts f) 2) (\<lambda>c.
       Inr (b, a, f_mat_idx f, c))))"

fun populate_geometry_from_faces_data :: "face list \<Rightarrow> geometry \<Rightarrow> py_error + geometry" where
  "populate_geometry_from_faces_data [] g = Inr g"
| "populate_geometry_from_faces_data (f # faces_list) g =
     ebind (face_triangle f) (\<lambda>t.
       populate_geometry_from_faces_data faces_list (g\<lparr>g_triangles := g_triangles g @ [t]\<rparr>))"

definition populate_geometry_with_mesh_data :: "obj \<Rightarrow> geometry \<Rightarrow> py_error + geometry" where
  "populate_geometry_with_mesh_data ob g =
     (let m = o_mesh ob in
      ebind (get_skin_plg_and_bone_groups ob) (\<lambda>(skin_plg, bone_groups).
      ebind (collect_polygons m bone_groups 0 (me_polygons m) [] []) (\<lambda>(vertices_list, faces_list).
        case cleanup_duplicate_verts vertices_list faces_list of
          (vertices_list', faces_list') \<Rightarrow>
            ebind (populate_geometry_from_vertices_data vertices_list' skin_plg m ob g)
                  (populate_geometry_from_faces_data faces_list'))))"

text \<open>The bounding sphere of \<^verbatim>\<open>populate_atomic\<close>.\<close>

definition sphere_center :: "obj \<Rightarrow> vec3" where
  "sphere_center ob =
     mat_vec (o_matrix_world ob) (vscale 0.125 (foldl vadd (0, 0, 0) (o_bound_box ob)))"

definition sphere_radius :: "obj \<Rightarrow> real" where
  "sphere_radius ob =
     (case o_dimensions ob of (dx, dy, dz) \<Rightarrow> 1.732 * max dx (max dy dz) / 2)"

definition bounding_sphere :: "obj \<Rightarrow> real \<times> real \<times> real \<times> real" where
  "bounding_sphere ob = (case sphere_center ob of (x, y, z) \<Rightarrow> (x, y, z, sphere_radius ob))"

section \<open>Frames and the export pass\<close>

text \<open>Modelled from the spec: the classes \<^verbatim>\<open>dff.Frame\<close>, \<^verbatim>\<open>dff.HAnimPLG\<close>,
  \<^verbatim>\<open>dff.Atomic\<close> and \<^verbatim>\<open>dff.Clump\<close> are not under \<^verbatim>\<open>src/\<close>. A frame has a name,
  creation flags, an integer parent index, a position, a rotation matrix and optional
  user data and bone data; a clump owns ordered lists of frames, geometries and atomics,
  all empty in \<^verbatim>\<open>dff.Clump()\<close>.\<close>

record hanim_plg =
  ha_header :: "int \<times> int \<times> nat"
  ha_bones :: "(int \<times> nat \<times> int) list"

record frame =
  fr_name :: string
  fr_creation_flags :: int
  fr_parent :: int
  fr_position :: vec3
  fr_rotation_matrix :: mat3
  fr_user_data :: "user_data option"
  fr_bone_data :: "hanim_plg option"

type_synonym atomic = "nat \<times> nat \<times> int \<times> int"

record clump =
  cl_frame_list :: "frame list"
  cl_geometry_list :: "geometry list"
  cl_atomic_list :: "atomic list"

definition new_Clump :: clump where
  "new_Clump = \<lparr>cl_frame_list = [], cl_geometry_list = [], cl_atomic_list = []\<rparr>"

text \<open>
  The class-level fields of \<^verbatim>\<open>dff_exporter\<close> that an export pass reads and writes.
  \<^verbatim>\<open>clumps\<close> is a dictionary whose keys are enumerated, so it is an association list;
  \<^verbatim>\<open>current_clump\<close> is a reference to one of its values, modelled as its key.
  \<open>uvanim_dict\<close> and \<open>dff_clumps\<close> are the two lists of \<^verbatim>\<open>self.dff\<close>.
\<close>

record exporter =
  clumps :: "(int \<times> clump) list"
  frames :: "string \<rightharpoonup> nat"
  bones :: "string \<rightharpoonup> nat"
  parent_queue :: "string \<rightharpoonup> nat"
  current_clump :: "int option"
  uvanim_dict :: "uv_anim list"
  dff_clumps :: "clump list"

text \<open>The class-level initial values.\<close>

definition init_exporter :: exporter where
  "init_exporter = \<lparr>clumps = [], frames = Map.empty, bones = Map.empty,
     parent_queue = Map.empty, current_clump = None, uvanim_dict = [], dff_clumps = []\<rparr>"

text \<open>What \<^verbatim>\<open>create_frame\<close> reads of its argument, an object or a bone;
  \<open>n_is_bone\<close> is \<^verbatim>\<open>type(obj) is bpy.types.Bone\<close>.\<close>

record node =
  n_name :: string
  n_parent :: "string option"
  n_matrix_local :: mat4
  n_user_data :: "string option"
  n_is_bone :: bool

definition obj_node :: "obj \<Rightarrow> node" where
  "obj_node ob = \<lparr>n_name = o_name ob, n_parent = o_parent ob, n_matrix_local = o_matrix_local ob,
     n_user_data = o_user_data ob, n_is_bone = False\<rparr>"

definition bone_node :: "bone \<Rightarrow> node" where
  "bone_node b = \<lparr>n_name = b_name b, n_parent = b_parent b, n_matrix_local = b_matrix_local b,
     n_user_data = b_user_data b, n_is_bone = True\<rparr>"

text \<open>\<^verbatim>\<open>self.current_clump\<close>; an attribute of \<^verbatim>\<open>None\<close> raises \<^verbatim>\<open>AttributeError\<close>.\<close>

definition get_current_clump :: "exporter \<Rightarrow> py_error + (int \<times> clump)" where
  "get_current_clump s =
     (case current_clump s of
        None \<Rightarrow> Inl AttributeError
      | Some k \<Rightarrow> (case map_of (clumps s) k of
                     None \<Rightarrow> Inl AttributeError
                   | Some c \<Rightarrow> Inr (k, c)))"

definition put_clump :: "int \<Rightarrow> clump \<Rightarrow> exporter \<Rightarrow> exporter" where
  "put_clump k c s = s\<lparr>clumps := AList.update k c (clumps s)\<rparr>"

text \<open>\<^verbatim>\<open>for name in self.parent_queue: if name == obj.name: ...\<close>: the keys of a
  dictionary are distinct, so the body runs for the entry of \<^verbatim>\<open>obj.name\<close>, if any.\<close>

definition scan_parent_queue ::
  "(string \<rightharpoonup> nat) \<Rightarrow> string \<Rightarrow> nat \<Rightarrow> frame list \<Rightarrow> py_error + frame list" where
  "scan_parent_queue queue name frame_index frame_list =
     (case queue name of
        None \<Rightarrow> Inr frame_list
      | Some index \<Rightarrow>
          if index < length frame_list
          then Inr (frame_list[index := (frame_list ! index)\<lparr>fr_parent := int frame_index\<rparr>])
          else Inl IndexError)"

text \<open>\<^verbatim>\<open>create_frame(obj, append, set_parent)\<close>: the frame it returns and the state it
  leaves (\<open>do_append\<close> is the argument \<^verbatim>\<open>append\<close>).\<close>

definition create_frame ::
  "node \<Rightarrow> bool \<Rightarrow> bool \<Rightarrow> exporter \<Rightarrow> py_error + (frame \<times> exporter)" where
  "create_frame ob do_append set_parent s =
     ebind (get_current_clump s) (\<lambda>(k, c).
       let frame_index = length (cl_frame_list c);
           is_bone = n_is_bone ob
       in
       ebind (scan_parent_queue (parent_queue s) (n_name ob) frame_index (cl_frame_list c))
         (\<lambda>frame_list.
       let frame = \<lparr>fr_name = clear_extension (n_name ob),
                    fr_creation_flags = 0,
                    fr_parent = - 1,
                    fr_position = to_translation (n_matrix_local ob),
                    fr_rotation_matrix = transposed3 (to_3x3 (n_matrix_local ob)),
                    fr_user_data = map_option UserData (n_user_data ob),
                    fr_bone_data = None\<rparr>;
           id_array = (if is_bone then bones s else frames s)
       in
       ebind (case n_parent ob of
                Some parent_name \<Rightarrow>
                  if set_parent
                  then (case id_array parent_name of
                          None \<Rightarrow> Inl KeyError
                        | Some p \<Rightarrow> Inr (frame\<lparr>fr_parent := int p\<rparr>))
                  else Inr frame
              | None \<Rightarrow> Inr frame) (\<lambda>frame.
       let s1 = (if is_bone then s\<lparr>bones := (bones s)(n_name ob \<mapsto> frame_index)\<rparr>
                 else s\<lparr>frames := (frames s)(n_name ob \<mapsto> frame_index)\<rparr>);
           frame_list' = (if do_append then frame_list @ [frame] else frame_list)
       in Inr (frame, put_clump k (c\<lparr>cl_frame_list := frame_list'\<rparr>) s1))))"

text \<open>\<^verbatim>\<open>self.current_clump.frame_list.append(frame)\<close>.\<close>

definition append_frame :: "frame \<Rightarrow> exporter \<Rightarrow> py_error + exporter" where
  "append_frame fr s =
     ebind (get_current_clump s) (\<lambda>(k, c).
       Inr (put_clump k (c\<lparr>cl_frame_list := cl_frame_list c @ [fr]\<rparr>) s))"

text \<open>A custom property read, \<^verbatim>\<open>bone["bone_id"]\<close> or \<^verbatim>\<open>bone["type"]\<close>.\<close>

definition custom_prop :: "'a option \<Rightarrow> py_error + 'a" where
  "custom_prop p = (case p of None \<Rightarrow> Inl KeyError | Some x \<Rightarrow> Inr x)"

text \<open>The bone array built in the root bone.\<close>

fun hanim_bones :: "nat \<Rightarrow> bone list \<Rightarrow> py_error + (int \<times> nat \<times> int) list" where
  "hanim_bones index [] = Inr []"
| "hanim_bones index (b # rest) =
     ebind (custom_prop (b_bone_id b)) (\<lambda>bone_id.
     ebind (custom_prop (b_type b)) (\<lambda>bone_type.
     ebind (hanim_bones (index + 1) rest) (\<lambda>bs.
       Inr ((bone_id, index, bone_type) # bs))))"

text \<open>The body of \<^verbatim>\<open>for index, bone in enumerate(obj.data.bones)\<close> of
  \<^verbatim>\<open>export_armature\<close>.\<close>

definition export_bone :: "obj \<Rightarrow> nat \<Rightarrow> bone \<Rightarrow> exporter \<Rightarrow> py_error + exporter" where
  "export_bone ob index b s =
     ebind (create_frame (bone_node b) False True s) (\<lambda>(frame, s1).
       if index = 0 then
         ebind (case o_parent ob of
                  Some parent_name \<Rightarrow>
                    (case frames s1 parent_name of
                       None \<Rightarrow> Inl KeyError
                     | Some p \<Rightarrow> Inr (frame\<lparr>fr_parent := int p\<rparr>))
                | None \<Rightarrow> Inr frame) (\<lambda>frame.
         ebind (custom_prop (b_bone_id b)) (\<lambda>bone_id.
         ebind (hanim_bones 0 (o_bones ob)) (\<lambda>bs.
           append_frame
             (frame\<lparr>fr_bone_data :=
                Some \<lparr>ha_header = (0x100, bone_id, length (o_bones ob)), ha_bones = bs\<rparr>\<rparr>) s1)))
       else
         ebind (custom_prop (b_bone_id b)) (\<lambda>bone_id.
           append_frame
             (frame\<lparr>fr_bone_data := Some \<lparr>ha_header = (0x100, bone_id, 0), ha_bones = []\<rparr>\<rparr>) s1))"

fun export_bones :: "obj \<Rightarrow> nat \<Rightarrow> bone list \<Rightarrow> exporter \<Rightarrow> py_error + exporter" where
  "export_bones ob index [] s = Inr s"
| "export_bones ob index (b # rest) s =
     ebind (export_bone ob index b s) (export_bones ob (index + 1) rest)"

definition export_armature :: "obj \<Rightarrow> exporter \<Rightarrow> py_error + exporter" where
  "export_armature ob s = export_bones ob 0 (o_bones ob) s"

text \<open>\<^verbatim>\<open>populate_atomic\<close>; \<open>fps\<close> is the scene's frame rate, read by the material
  helper.\<close>

definition populate_atomic :: "int \<Rightarrow> obj \<Rightarrow> exporter \<Rightarrow> py_error + exporter" where
  "populate_atomic fps ob s =
     ebind (populate_geometry_with_mesh_data ob new_Geometry) (\<lambda>g.
     ebind (create_frame (obj_node ob) True True s) (\<lambda>(frame, s1).
     ebind (generate_material_list fps (o_materials ob) [] (uvanim_dict s1))
       (\<lambda>(materials, uvanim_dict').
     ebind (get_current_clump s1) (\<lambda>(k, c).
       let g' = g\<lparr>g_bounding_sphere := Some (bounding_sphere ob),
                  g_surface_properties := Some (0, 0, 0),
                  g_materials := materials,
                  g_export_normals := o_export_normals ob,
                  g_write_mesh_plg := o_export_binsplit ob,
                  g_light := o_light ob,
                  g_modulate_color := o_modulate_color ob,
                  g_ext_user_data := map_option UserData (o_data_user_data ob),
                  g_pipeline := o_pipeline ob\<rparr>;
           geometry_list = cl_geometry_list c @ [g'];
           geometry_index = length geometry_list - 1;
           frame_index = length (cl_frame_list c) - 1;
           c' = c\<lparr>cl_geometry_list := geometry_list,
                  cl_atomic_list := cl_atomic_list c @ [(frame_index, geometry_index, 0x4, 0)]\<rparr>
       in Inr (put_clump k c' (s1\<lparr>uvanim_dict := uvanim_dict'\<rparr>))))))"

text \<open>The body of \<^verbatim>\<open>for obj in objects\<close> of \<^verbatim>\<open>export_objects\<close>.\<close>

definition export_object :: "int \<Rightarrow> obj \<Rightarrow> exporter \<Rightarrow> py_error + exporter" where
  "export_object fps ob s =
     (let s1 = (if map_of (clumps s) (o_clump ob) = None
                then s\<lparr>clumps := clumps s @ [(o_clump ob, new_Clump)]\<rparr> else s);
          s2 = s1\<lparr>current_clump := Some (o_clump ob)\<rparr>
      in case o_type ob of
           MESH \<Rightarrow> populate_atomic fps ob s2
         | EMPTY \<Rightarrow> ebind (create_frame (obj_node ob) True True s2) (\<lambda>(frame, s3). Inr s3)
         | ARMATURE \<Rightarrow> export_armature ob s2
         | OTHER \<Rightarrow> Inr s2)"

fun objects_loop :: "int \<Rightarrow> obj list \<Rightarrow> exporter \<Rightarrow> py_error + exporter" where
  "objects_loop fps [] s = Inr s"
| "objects_loop fps (ob # objects) s = ebind (export_object fps ob s) (objects_loop fps objects)"

text \<open>\<^verbatim>\<open>export_objects\<close> up to the assembled container: a fresh \<^verbatim>\<open>dff.dff()\<close>, nothing
  more for an empty object list, else the loop and the clumps in the order of their keys.
  The collision blob and the file written from the container are outside the model.\<close>

definition export_objects :: "int \<Rightarrow> obj list \<Rightarrow> exporter \<Rightarrow> py_error + exporter" where
  "export_objects fps objects s =
     (let s0 = s\<lparr>uvanim_dict := [], dff_clumps := []\<rparr> in
      if length objects < 1 then Inr s0
      else ebind (objects_loop fps objects s0) (\<lambda>s'.
             Inr (s'\<lparr>dff_clumps := dff_clumps s' @
                        map (\<lambda>clump_idx. the (map_of (clumps s') clump_idx))
                            (sort (map fst (clumps s')))\<rparr>)))"

section \<open>Auxiliary definitions for the proofs\<close>

text \<open>The key that the inner loop of \<^verbatim>\<open>cleanup_duplicate_verts\<close> compares.\<close>

definition vkey :: "vert \<Rightarrow> nat \<times> vec3 \<times> (real \<times> real) list" where
  "vkey v = (v_idx v, v_normal v, v_uvs v)"

text \<open>The two loops of \<^verbatim>\<open>cleanup_duplicate_verts\<close> by structural recursion: the list
  that survives, and the dictionary \<^verbatim>\<open>removed_verts\<close>.\<close>

fun mark_removed :: "vert \<Rightarrow> (nat \<rightharpoonup> nat) \<Rightarrow> vert list \<Rightarrow> (nat \<rightharpoonup> nat)" where
  "mark_removed v r [] = r"
| "mark_removed v r (w # ws) = mark_removed v (r(v_tmp_idx w \<mapsto> v_tmp_idx v)) ws"

fun dedup_list :: "vert list \<Rightarrow> vert list" where
  "dedup_list [] = []"
| "dedup_list (v # ws) = v # dedup_list (filter (\<lambda>w. \<not> same_vert v w) ws)"

fun removed_of :: "(nat \<rightharpoonup> nat) \<Rightarrow> vert list \<Rightarrow> (nat \<rightharpoonup> nat)" where
  "removed_of r [] = r"
| "removed_of r (v # ws) =
     removed_of (mark_removed v r (filter (same_vert v) ws)) (filter (\<lambda>w. \<not> same_vert v w) ws)"

text \<open>A quad split into two triangles: six corners over four source vertices, with one
  normal and no UV layer.\<close>

definition quad_corner :: "nat \<Rightarrow> nat \<Rightarrow> vert" where
  "quad_corner i t = \<lparr>v_idx = i, v_tmp_idx = t, v_co = (0, 0, 0), v_normal = (0, 0, 1),
     v_uvs = [], v_vert_cols = [], v_bones = []\<rparr>"

definition quad_verts :: "vert list" where
  "quad_verts = [quad_corner 0 0, quad_corner 1 1, quad_corner 2 2,
                 quad_corner 0 3, quad_corner 2 4, quad_corner 3 5]"

definition quad_faces :: "face list" where
  "quad_faces = [\<lparr>f_verts = [Some 0, Some 1, Some 2], f_mat_idx = 0\<rparr>,
                 \<lparr>f_verts = [Some 3, Some 4, Some 5], f_mat_idx = 0\<rparr>]"

text \<open>A single triangle with three distinct corners.\<close>

definition tri_verts :: "vert list" where
  "tri_verts = [quad_corner 0 0, quad_corner 1 1, quad_corner 2 2]"

definition tri_faces :: "face list" where
  "tri_faces = [\<lparr>f_verts = [Some 0, Some 1, Some 2], f_mat_idx = 0\<rparr>]"

text \<open>A list extended to four entries.\<close>

definition pad4 :: "'a \<Rightarrow> 'a list \<Rightarrow> 'a list" where
  "pad4 z xs = xs @ replicate (4 - length xs) z"

text \<open>What holds of the corners that \<^verbatim>\<open>populate_geometry_with_mesh_data\<close> collects:
  \<^verbatim>\<open>tmp_idx\<close> is the position, and there are at most four influences.\<close>

definition corners_ok :: "vert list \<Rightarrow> bool" where
  "corners_ok vs \<longleftrightarrow> map v_tmp_idx vs = [0..<length vs] \<and> (\<forall>v\<in>set vs. length (v_bones v) \<le> 4)"

text \<open>The skin after the vertex loop has run over \<open>vs\<close>.\<close>

definition skin_after :: "skin_plg \<Rightarrow> vert list \<Rightarrow> skin_plg" where
  "skin_after skin vs =
     skin\<lparr>sk_vertex_bone_indices :=
             sk_vertex_bone_indices skin @ map (\<lambda>v. pad4 0 (map fst (v_bones v))) vs,
          sk_vertex_bone_weights :=
             sk_vertex_bone_weights skin @ map (\<lambda>v. pad4 0 (map snd (v_bones v))) vs\<rparr>"

text \<open>The vertices that \<^verbatim>\<open>populate_geometry_with_mesh_data\<close> hands to
  \<^verbatim>\<open>populate_geometry_from_vertices_data\<close>: the collected corners after
  \<^verbatim>\<open>cleanup_duplicate_verts\<close>.\<close>

definition exported_corners :: "obj \<Rightarrow> vert list" where
  "exported_corners ob =
     (case get_skin_plg_and_bone_groups ob of
        Inl e \<Rightarrow> []
      | Inr (skin_plg, bone_groups) \<Rightarrow>
          (case collect_polygons (o_mesh ob) bone_groups 0 (me_polygons (o_mesh ob)) [] [] of
             Inl e \<Rightarrow> []
           | Inr (vertices_list, faces_list) \<Rightarrow>
               fst (cleanup_duplicate_verts vertices_list faces_list)))"

text \<open>Every frame list of the first state is a prefix of the list of the same clump in
  the second: frames are appended, and no frame that is in a list changes.\<close>

definition grows :: "exporter \<Rightarrow> exporter \<Rightarrow> bool" where
  "grows s s' \<longleftrightarrow>
     (\<forall>k c. map_of (clumps s) k = Some c \<longrightarrow>
        (\<exists>c'. map_of (clumps s') k = Some c' \<and> prefix (cl_frame_list c) (cl_frame_list c')))"

text \<open>The property of C1 for one frame list.\<close>

definition frames_ok :: "frame list \<Rightarrow> bool" where
  "frames_ok fl \<longleftrightarrow> (\<forall>i<length fl. fr_parent (fl ! i) = - 1 \<or> fr_parent (fl ! i) < int i)"

text \<open>The invariant of a pass whose objects all go to the clump \<open>k\<close>: the parent
  queue is empty, \<open>k\<close> is the only key, every registered index is a position of the
  frame list of \<open>k\<close>, and that list has the property of C1.\<close>

definition frame_count :: "int \<Rightarrow> exporter \<Rightarrow> nat" where
  "frame_count k s = (case map_of (clumps s) k of None \<Rightarrow> 0 | Some c \<Rightarrow> length (cl_frame_list c))"

definition pass_inv :: "int \<Rightarrow> exporter \<Rightarrow> bool" where
  "pass_inv k s \<longleftrightarrow>
     parent_queue s = Map.empty
     \<and> distinct (map fst (clumps s))
     \<and> fst ` set (clumps s) \<subseteq> {k}
     \<and> (\<forall>name p. frames s name = Some p \<longrightarrow> p < frame_count k s)
     \<and> (\<forall>name p. bones s name = Some p \<longrightarrow> p < frame_count k s)
     \<and> (\<forall>c. map_of (clumps s) k = Some c \<longrightarrow> frames_ok (cl_frame_list c))"

text \<open>The parent indices of the frames of the assembled clumps.\<close>

definition parent_table :: "exporter \<Rightarrow> int list list" where
  "parent_table s = map (\<lambda>c. map fr_parent (cl_frame_list c)) (dff_clumps s)"

definition result_parents :: "py_error + exporter \<Rightarrow> int list list option" where
  "result_parents r = (case r of Inl e \<Rightarrow> None | Inr s \<Rightarrow> Some (parent_table s))"

section \<open>Example inputs\<close>

definition id4 :: mat4 where
  "id4 = ((1, 0, 0, 0), (0, 1, 0, 0), (0, 0, 1, 0), (0, 0, 0, 1))"

definition empty_mesh :: mesh where
  "empty_mesh = \<lparr>me_polygons = [], me_loops = [], me_vertices = [], me_uv_layers = [],
     me_vertex_colors = []\<rparr>"

text \<open>An object of the given kind, name, parent and clump, with nothing else set.\<close>

definition plain_obj :: "obj_type \<Rightarrow> string \<Rightarrow> string option \<Rightarrow> int \<Rightarrow> obj" where
  "plain_obj kind name parent k =
     \<lparr>o_name = name, o_parent = parent, o_matrix_local = id4, o_matrix_world = id4,
      o_user_data = None, o_type = kind, o_clump = k, o_bones = [], o_modifiers = [],
      o_vertex_groups = Map.empty, o_mesh = empty_mesh, o_bound_box = [],
      o_dimensions = (0, 0, 0), o_materials = [], o_data_user_data = None,
      o_day_cols = False, o_night_cols = False, o_uv_map1 = False, o_uv_map2 = False,
      o_export_normals = False, o_export_binsplit = False, o_light = False,
      o_modulate_color = False, o_pipeline = None\<rparr>"

text \<open>A skinned triangle: three corners over three vertices, two UV layers, an armature
  of two bones, vertex groups for both, and a bounding box of side 2.\<close>

definition tri_bone :: "string \<Rightarrow> string option \<Rightarrow> int \<Rightarrow> bone" where
  "tri_bone name parent bone_id =
     \<lparr>b_name = name, b_parent = parent, b_matrix_local = id4, b_inverted = Some id4,
      b_user_data = None, b_bone_id = Some bone_id, b_type = Some 0\<rparr>"

definition tri_armature :: armature where
  "tri_armature = \<lparr>ar_bones = [tri_bone ''root'' None 0, tri_bone ''arm'' (Some ''root'') 1]\<rparr>"

definition tri_mesh :: mesh where
  "tri_mesh =
     \<lparr>me_polygons = [\<lparr>pl_material_index = 0, pl_loop_indices = [0, 1, 2]\<rparr>],
      me_loops = [\<lparr>ml_vertex_index = 0, ml_normal = (0, 0, 1)\<rparr>,
                  \<lparr>ml_vertex_index = 1, ml_normal = (0, 0, 1)\<rparr>,
                  \<lparr>ml_vertex_index = 2, ml_normal = (0, 0, 1)\<rparr>],
      me_vertices = [\<lparr>mv_co = (0, 0, 0), mv_groups = [(0, 1)]\<rparr>,
                     \<lparr>mv_co = (1, 0, 0), mv_groups = [(0, 1 / 2), (1, 1 / 2)]\<rparr>,
                     \<lparr>mv_co = (0, 1, 0), mv_groups = []\<rparr>],
      me_uv_layers = [[(0, 0), (1, 0), (0, 1)], [(0, 0), (1, 0), (0, 1)]],
      me_vertex_colors = []\<rparr>"

definition tri_obj :: obj where
  "tri_obj = (plain_obj MESH ''tri'' None 0)
     \<lparr>o_modifiers := [\<lparr>md_type = ''ARMATURE'', md_object = Some tri_armature\<rparr>],
      o_vertex_groups := [''root'' \<mapsto> 0, ''arm'' \<mapsto> 1],
      o_mesh := tri_mesh,
      o_bound_box := [(- 1, - 1, - 1), (- 1, - 1, 1), (- 1, 1, 1), (- 1, 1, - 1),
                      (1, - 1, - 1), (1, - 1, 1), (1, 1, 1), (1, 1, - 1)],
      o_dimensions := (2, 2, 2),
      o_uv_map1 := True\<rparr>"

text \<open>The corners, the skin and the geometry that the exporter builds for the skinned
  triangle.\<close>

definition tri_corners :: "vert list" where
  "tri_corners =
     [\<lparr>v_idx = 0, v_tmp_idx = 0, v_co = (0, 0, 0), v_normal = (0, 0, 1),
          v_uvs = [(0, 0), (0, 0)], v_vert_cols = [], v_bones = [(0, 1)]\<rparr>,
       \<lparr>v_idx = 1, v_tmp_idx = 1, v_co = (1, 0, 0), v_normal = (0, 0, 1),
          v_uvs = [(1, 0), (1, 0)], v_vert_cols = [],
          v_bones = [(0, 1 / 2), (1, 1 / 2)]\<rparr>,
       \<lparr>v_idx = 2, v_tmp_idx = 2, v_co = (0, 1, 0), v_normal = (0, 0, 1),
          v_uvs = [(0, 1), (0, 1)], v_vert_cols = [], v_bones = []\<rparr>]"

definition tri_skin :: skin_plg where
  "tri_skin = \<lparr>sk_num_bones = 2, sk_bone_matrices = [id4, id4],
      sk_vertex_bone_indices = [[0, 0, 0, 0], [0, 1, 0, 0], [0, 0, 0, 0]],
      sk_vertex_bone_weights = [[1, 0, 0, 0], [1 / 2, 1 / 2, 0, 0], [0, 0, 0, 0]]\<rparr>"

definition tri_geometry :: geometry where
  "tri_geometry = new_Geometry
     \<lparr>g_vertices := [(0, 0, 0), (1, 0, 0), (0, 1, 0)],
      g_normals := [(0, 0, 1), (0, 0, 1), (0, 0, 1)],
      g_uv_layers := [[(0, 1), (1, 1), (0, 0)]],
      g_triangles := [(Some 1, Some 0, 0, Some 2)],
      g_ext_skin := Some tri_skin\<rparr>"

text \<open>Three empties: \<open>a\<close> and \<open>b\<close> without parent in clump 0, and \<open>c\<close>, a child of \<open>b\<close>,
  in the clump \<open>k\<close>.\<close>

definition obj_a :: obj where "obj_a = plain_obj EMPTY ''a'' None 0"

definition obj_b :: obj where "obj_b = plain_obj EMPTY ''b'' None 0"

definition obj_c :: "int \<Rightarrow> obj" where "obj_c k = plain_obj EMPTY ''c'' (Some ''b'') k"

section \<open>Vertex deduplication: the loops and what survives\<close>

lemma same_vert_vkey: "same_vert a b \<longleftrightarrow> vkey a = vkey b"
  by (auto simp: same_vert_def vkey_def)

lemma dedup_inner_eq:
  "dedup_inner v j vs r =
     (take j vs @ filter (\<lambda>w. \<not> same_vert v w) (drop j vs),
      mark_removed v r (filter (same_vert v) (drop j vs)))"
proof (induction v j vs r rule: dedup_inner.induct)
  case (1 v j vs r)
  show ?case
  proof (cases "j < length vs")
    case False
    then show ?thesis by (simp add: dedup_inner.simps [of v j vs r])
  next
    case lt: True
    then have dr: "drop j vs = vs ! j # drop (Suc j) vs"
      by (simp add: Cons_nth_drop_Suc)
    show ?thesis
    proof (cases "same_vert v (vs ! j)")
      case True
      have t: "take j (del_at vs j) = take j vs" and d: "drop j (del_at vs j) = drop (Suc j) vs"
        using lt by (simp_all add: del_at_def)
      have "dedup_inner v j vs r =
              dedup_inner v j (del_at vs j) (r(v_tmp_idx (vs ! j) \<mapsto> v_tmp_idx v))"
        using lt True by (simp add: dedup_inner.simps [of v j vs r])
      also have "\<dots> = (take j (del_at vs j) @ filter (\<lambda>w. \<not> same_vert v w) (drop j (del_at vs j)),
          mark_removed v (r(v_tmp_idx (vs ! j) \<mapsto> v_tmp_idx v)) (filter (same_vert v) (drop j (del_at vs j))))"
        by (rule "1.IH"(1) [OF lt refl True])
      also have "\<dots> = (take j vs @ filter (\<lambda>w. \<not> same_vert v w) (drop j vs),
          mark_removed v r (filter (same_vert v) (drop j vs)))"
        unfolding t d dr using True by simp
      finally show ?thesis .
    next
      case False
      have t: "take (j + 1) vs = take j vs @ [vs ! j]"
        using lt by (simp add: take_Suc_conv_app_nth)
      have "dedup_inner v j vs r = dedup_inner v (j + 1) vs r"
        using lt False by (simp add: dedup_inner.simps [of v j vs r])
      also have "\<dots> = (take (j + 1) vs @ filter (\<lambda>w. \<not> same_vert v w) (drop (j + 1) vs),
          mark_removed v r (filter (same_vert v) (drop (j + 1) vs)))"
        by (rule "1.IH"(2) [OF lt refl False])
      also have "\<dots> = (take j vs @ filter (\<lambda>w. \<not> same_vert v w) (drop j vs),
          mark_removed v r (filter (same_vert v) (drop j vs)))"
        unfolding t dr using False by simp
      finally show ?thesis .
    qed
  qed
qed

lemma dedup_outer_eq:
  "dedup_outer i vs r = (take i vs @ dedup_list (drop i vs), removed_of r (drop i vs))"
proof (induction i vs r rule: dedup_outer.induct)
  case (1 i vs r)
  show ?case
  proof (cases "i < length vs")
    case False
    then show ?thesis by (simp add: dedup_outer.simps [of i vs r])
  next
    case lt: True
    then have dr: "drop i vs = vs ! i # drop (Suc i) vs"
      by (simp add: Cons_nth_drop_Suc)
    define vs' where "vs' = take (i + 1) vs @ filter (\<lambda>w. \<not> same_vert (vs ! i) w) (drop (i + 1) vs)"
    define r' where "r' = mark_removed (vs ! i) r (filter (same_vert (vs ! i)) (drop (i + 1) vs))"
    have inner: "dedup_inner (vs ! i) (i + 1) vs r = (vs', r')"
      unfolding dedup_inner_eq vs'_def r'_def ..
    have t: "take (Suc i) vs' = take (Suc i) vs"
      and d: "drop (Suc i) vs' = filter (\<lambda>w. \<not> same_vert (vs ! i) w) (drop (Suc i) vs)"
      using lt by (simp_all add: vs'_def)
    have "dedup_outer i vs r = dedup_outer (i + 1) vs' r'"
      using lt by (subst dedup_outer.simps) (simp only: inner if_True prod.case)
    also have "\<dots> = (take (i + 1) vs' @ dedup_list (drop (i + 1) vs'), removed_of r' (drop (i + 1) vs'))"
      by (rule "1.IH" [OF lt inner [symmetric]])
    finally show ?thesis using lt
      by (simp add: t d dr r'_def take_Suc_conv_app_nth)
  qed
qed


lemma set_dedup_list: "set (dedup_list vs) \<subseteq> set vs"
  by (induction vs rule: dedup_list.induct) auto


lemma distinct_vkey_dedup_list: "distinct (map vkey (dedup_list vs))"
proof (induction vs rule: dedup_list.induct)
  case 1
  show ?case by simp
next
  case (2 v ws)
  have "vkey v \<notin> vkey ` set (dedup_list (filter (\<lambda>w. \<not> same_vert v w) ws))"
    using set_dedup_list [of "filter (\<lambda>w. \<not> same_vert v w) ws"]
    by (auto simp: same_vert_vkey)
  with 2 show ?case by simp
qed

lemma vkey_set_dedup_list: "vkey ` set (dedup_list vs) = vkey ` set vs"
proof (induction vs rule: dedup_list.induct)
  case 1
  show ?case by simp
next
  case (2 v ws)
  have "vkey ` set ws \<subseteq> insert (vkey v) (vkey ` set (filter (\<lambda>w. \<not> same_vert v w) ws))"
    by (auto simp: same_vert_vkey)
  moreover have "vkey ` set (filter (\<lambda>w. \<not> same_vert v w) ws) \<subseteq> vkey ` set ws"
    by auto
  ultimately show ?case using 2 by auto
qed

lemma dedup_list_id: "distinct (map vkey vs) \<Longrightarrow> dedup_list vs = vs"
proof (induction vs)
  case Nil
  show ?case by simp
next
  case (Cons v ws)
  then have "filter (\<lambda>w. \<not> same_vert v w) ws = ws"
    by (auto simp: same_vert_vkey filter_id_conv)
  with Cons show ?case by simp
qed





lemma find_from_distinct:
  "distinct (map v_tmp_idx vs) \<Longrightarrow> q < length vs \<Longrightarrow>
   find_from i vs (v_tmp_idx (vs ! q)) = Some (i + q)"
proof (induction vs arbitrary: i q)
  case Nil
  then show ?case by simp
next
  case (Cons v vs)
  show ?case
  proof (cases q)
    case 0
    then show ?thesis by simp
  next
    case (Suc q')
    with Cons.prems have "q' < length vs" "v_tmp_idx v \<noteq> v_tmp_idx (vs ! q')"
      by (auto simp: image_iff)
    with Cons.IH [of q' "Suc i"] Cons.prems Suc show ?thesis by simp
  qed
qed

lemma find_from_Some:
  "find_from i vs t = Some k \<Longrightarrow> i \<le> k \<and> k - i < length vs \<and> v_tmp_idx (vs ! (k - i)) = t"
proof (induction vs arbitrary: i)
  case Nil
  then show ?case by simp
next
  case (Cons v vs)
  show ?case
  proof (cases "v_tmp_idx v = t")
    case True
    with Cons.prems show ?thesis by simp
  next
    case False
    with Cons.prems have "find_from (Suc i) vs t = Some k" by simp
    from Cons.IH [OF this] show ?thesis by (auto simp: Suc_diff_Suc less_eq_Suc_le)
  qed
qed

lemma find_from_None: "find_from i vs t = None \<longleftrightarrow> t \<notin> v_tmp_idx ` set vs"
  by (induction vs arbitrary: i) auto


lemma cleanup_eq:
  "cleanup_duplicate_verts vs fs =
     (dedup_list vs, map (remap_face (dedup_list vs) (removed_of Map.empty vs)) fs)"
  by (simp add: cleanup_duplicate_verts_def dedup_outer_eq)









lemma quad_dedup: "dedup_list quad_verts = [quad_corner 0 0, quad_corner 1 1, quad_corner 2 2, quad_corner 3 5]"
  by (simp add: quad_verts_def quad_corner_def same_vert_def)

lemma quad_removed: "removed_of Map.empty quad_verts = [3 \<mapsto> 0, 4 \<mapsto> 2]"
  by (simp add: quad_verts_def quad_corner_def same_vert_def)

lemma quad_cleanup:
  "cleanup_duplicate_verts quad_verts quad_faces =
     ([quad_corner 0 0, quad_corner 1 1, quad_corner 2 2, quad_corner 3 5],
      [\<lparr>f_verts = [Some 0, Some 1, Some 2], f_mat_idx = 0\<rparr>,
       \<lparr>f_verts = [Some 0, Some 2, Some 3], f_mat_idx = 0\<rparr>])"
  by (simp add: cleanup_eq quad_dedup quad_removed)
     (simp add: quad_faces_def remap_face_def remap_idx_def find_vert_idx_by_tmp_idx_def quad_corner_def)

lemma quad_cleanup2:
  "cleanup_duplicate_verts [quad_corner 0 0, quad_corner 1 1, quad_corner 2 2, quad_corner 3 5]
      [\<lparr>f_verts = [Some 0, Some 1, Some 2], f_mat_idx = 0\<rparr>,
       \<lparr>f_verts = [Some 0, Some 2, Some 3], f_mat_idx = 0\<rparr>] =
     ([quad_corner 0 0, quad_corner 1 1, quad_corner 2 2, quad_corner 3 5],
      [\<lparr>f_verts = [Some 0, Some 1, Some 2], f_mat_idx = 0\<rparr>,
       \<lparr>f_verts = [Some 0, Some 2, None], f_mat_idx = 0\<rparr>])"
  by (simp add: cleanup_eq quad_corner_def same_vert_def remap_face_def remap_idx_def find_vert_idx_by_tmp_idx_def)


lemma removed_of_id: "distinct (map vkey vs) \<Longrightarrow> removed_of r vs = r"
proof (induction vs arbitrary: r)
  case Nil
  show ?case by simp
next
  case (Cons v ws)
  then have A: "filter (same_vert v) ws = []" and B: "filter (\<lambda>w. \<not> same_vert v w) ws = ws"
    by (auto simp: same_vert_vkey filter_empty_conv filter_id_conv)
  have "removed_of r (v # ws) = removed_of (mark_removed v r []) ws"
    by (simp only: removed_of.simps A B)
  also have "\<dots> = removed_of r ws" by simp
  also have "\<dots> = r" using Cons by simp
  finally show ?case .
qed

lemma cleanup_fst: "fst (cleanup_duplicate_verts vs fs) = dedup_list vs"
  by (simp add: cleanup_eq)

lemma dedup_list_idem: "dedup_list (dedup_list vs) = dedup_list vs"
  by (rule dedup_list_id) (rule distinct_vkey_dedup_list)

lemma find_vert_idx_range:
  "find_vert_idx_by_tmp_idx vs t = Some q \<Longrightarrow> q < length vs"
  using find_from_Some [of 0 vs t q] by (simp add: find_vert_idx_by_tmp_idx_def)

lemma remap_idx_range: "remap_idx vs r e = Some q \<Longrightarrow> q < length vs"
  by (auto simp: remap_idx_def split: option.splits dest: find_vert_idx_range)

lemma remap_idx_fixed:
  assumes tmp: "map v_tmp_idx vs = [0..<length vs]" and e: "e = None \<or> (\<exists>q<length vs. e = Some q)"
  shows "remap_idx vs Map.empty e = e"
proof (cases e)
  case None
  then show ?thesis by (simp add: remap_idx_def)
next
  case (Some q)
  with e have q: "q < length vs" by auto
  have d: "distinct (map v_tmp_idx vs)" by (simp add: tmp)
  have tq: "v_tmp_idx (vs ! q) = q"
    using q arg_cong [OF tmp, of "\<lambda>xs. xs ! q"] by simp
  from find_from_distinct [OF d q, of 0] tq Some show ?thesis
    by (simp add: remap_idx_def find_vert_idx_by_tmp_idx_def)
qed

lemma cleanup_second_pass:
  assumes tmp: "map v_tmp_idx (dedup_list vs) = [0..<length (dedup_list vs)]"
  shows "cleanup_duplicate_verts (fst (cleanup_duplicate_verts vs fs)) (snd (cleanup_duplicate_verts vs fs))
           = cleanup_duplicate_verts vs fs"
proof -
  let ?vs' = "dedup_list vs" and ?r = "removed_of Map.empty vs"
  have r': "removed_of Map.empty ?vs' = Map.empty"
    by (rule removed_of_id) (rule distinct_vkey_dedup_list)
  have "remap_face ?vs' Map.empty (remap_face ?vs' ?r f) = remap_face ?vs' ?r f" for f
  proof -
    have "remap_idx ?vs' Map.empty (remap_idx ?vs' ?r e) = remap_idx ?vs' ?r e" for e
    proof (rule remap_idx_fixed [OF tmp])
      show "remap_idx ?vs' ?r e = None \<or> (\<exists>q<length ?vs'. remap_idx ?vs' ?r e = Some q)"
        using remap_idx_range [of ?vs' ?r e] by (cases "remap_idx ?vs' ?r e") auto
    qed
    then show ?thesis by (simp add: remap_face_def)
  qed
  then show ?thesis
    by (simp add: cleanup_eq dedup_list_idem r')
qed

lemma tri_cleanup: "cleanup_duplicate_verts tri_verts tri_faces = (tri_verts, tri_faces)"
  by (simp add: cleanup_eq tri_verts_def tri_faces_def quad_corner_def same_vert_def remap_face_def
        remap_idx_def find_vert_idx_by_tmp_idx_def)

section \<open>Geometry builder: lemmas\<close>

lemma ebind_Inr_iff: "ebind m f = Inr y \<longleftrightarrow> (\<exists>x. m = Inr x \<and> f x = Inr y)"
  by (cases m) (simp_all add: ebind_def)

lemma ebind_Inr [simp]: "ebind (Inr x) f = f x"
  by (simp add: ebind_def)

lemma ebind_Inl [simp]: "ebind (Inl e) f = Inl e"
  by (simp add: ebind_def)

subsection \<open>UV layers\<close>

lemma length_uv_loop: "length (uv_loop mx i uvs layers) \<le> max (length layers) mx"
proof (induction uvs arbitrary: i layers)
  case Nil
  show ?case by simp
next
  case (Cons uv uvs)
  show ?case
  proof (cases "i \<ge> mx")
    case True
    then show ?thesis by simp
  next
    case False
    let ?padded = "layers @ replicate (i + 1 - length layers) []"
    let ?l' = "?padded[i := ?padded ! i @ [(fst uv, 1 - snd uv)]]"
    have "length (uv_loop mx (i + 1) uvs ?l') \<le> max (length ?l') mx" by (rule Cons.IH)
    also have "\<dots> \<le> max (length layers) mx" using False by auto
    finally show ?thesis using False by (simp add: Let_def)
  qed
qed

lemma max_uv_layers_cases:
  "max_uv_layers ob = (if o_uv_map1 ob then (if o_uv_map2 ob then 2 else 1) else 0)"
  by (simp add: max_uv_layers_def)

lemma vertex_step_uv:
  assumes "vertex_step hp hn mx v (g, ex, sk) = Inr (g', ex', sk')"
  shows "length (g_uv_layers g') \<le> max (length (g_uv_layers g)) mx"
  using assms length_uv_loop [of mx 0 "v_uvs v" "g_uv_layers g"]
  by (auto simp: vertex_step_def ebind_Inr_iff Let_def split: if_splits option.splits prod.splits)

lemma vertices_loop_uv:
  assumes "vertices_loop hp hn mx vs (g, ex, sk) = Inr (g', ex', sk')"
  shows "length (g_uv_layers g') \<le> max (length (g_uv_layers g)) mx"
  using assms
proof (induction vs arbitrary: g ex sk)
  case Nil
  then show ?case by simp
next
  case (Cons v vs)
  from Cons.prems obtain g1 ex1 sk1 where
    step: "vertex_step hp hn mx v (g, ex, sk) = Inr (g1, ex1, sk1)"
    and rest: "vertices_loop hp hn mx vs (g1, ex1, sk1) = Inr (g', ex', sk')"
    by (auto simp: ebind_Inr_iff)
  from Cons.IH [OF rest] vertex_step_uv [OF step] show ?case by simp
qed

lemma faces_data_uv:
  "populate_geometry_from_faces_data fs g = Inr g' \<Longrightarrow> g_uv_layers g' = g_uv_layers g"
  by (induction fs arbitrary: g) (auto simp: ebind_Inr_iff)

lemma vertices_data_uv:
  assumes "populate_geometry_from_vertices_data vs sk m ob g = Inr g'"
  shows "length (g_uv_layers g') \<le> max (length (g_uv_layers g)) (max_uv_layers ob)"
proof -
  from assms obtain g1 ex1 sk1 where
    loop: "vertices_loop (length (me_vertex_colors m) > 0 \<and> o_day_cols ob)
             (length (me_vertex_colors m) > 1 \<and> o_night_cols ob) (max_uv_layers ob) vs (g, [], sk)
           = Inr (g1, ex1, sk1)"
    and g': "g_uv_layers g' = g_uv_layers g1"
    by (auto simp: populate_geometry_from_vertices_data_def ebind_Inr_iff Let_def
             split: option.splits if_splits)
  from vertices_loop_uv [OF loop] g' show ?thesis by simp
qed

lemma mesh_data_split:
  assumes "populate_geometry_with_mesh_data ob g = Inr g'"
  obtains skin_plg bone_groups vs fs g1 where
    "get_skin_plg_and_bone_groups ob = Inr (skin_plg, bone_groups)"
    "collect_polygons (o_mesh ob) bone_groups 0 (me_polygons (o_mesh ob)) [] [] = Inr (vs, fs)"
    "populate_geometry_from_vertices_data (fst (cleanup_duplicate_verts vs fs)) skin_plg
       (o_mesh ob) ob g = Inr g1"
    "populate_geometry_from_faces_data (snd (cleanup_duplicate_verts vs fs)) g1 = Inr g'"
proof -
  from assms obtain sb where sb: "get_skin_plg_and_bone_groups ob = Inr sb"
    and r1: "(case sb of (skin_plg, bone_groups) \<Rightarrow>
        ebind (collect_polygons (o_mesh ob) bone_groups 0 (me_polygons (o_mesh ob)) [] [])
          (\<lambda>(vertices_list, faces_list).
            case cleanup_duplicate_verts vertices_list faces_list of
              (vertices_list', faces_list') \<Rightarrow>
                ebind (populate_geometry_from_vertices_data vertices_list' skin_plg (o_mesh ob) ob g)
                      (populate_geometry_from_faces_data faces_list'))) = Inr g'"
    unfolding populate_geometry_with_mesh_data_def Let_def ebind_Inr_iff by blast
  obtain skin_plg bone_groups where sbe: "sb = (skin_plg, bone_groups)" by (cases sb)
  from r1 obtain vf where vf: "collect_polygons (o_mesh ob) bone_groups 0 (me_polygons (o_mesh ob)) [] [] = Inr vf"
    and r2: "(case vf of (vertices_list, faces_list) \<Rightarrow>
            case cleanup_duplicate_verts vertices_list faces_list of
              (vertices_list', faces_list') \<Rightarrow>
                ebind (populate_geometry_from_vertices_data vertices_list' skin_plg (o_mesh ob) ob g)
                      (populate_geometry_from_faces_data faces_list')) = Inr g'"
    unfolding sbe prod.case ebind_Inr_iff by blast
  obtain vs fs where vfe: "vf = (vs, fs)" by (cases vf)
  from r2 obtain g1 where
    "populate_geometry_from_vertices_data (fst (cleanup_duplicate_verts vs fs)) skin_plg
       (o_mesh ob) ob g = Inr g1"
    "populate_geometry_from_faces_data (snd (cleanup_duplicate_verts vs fs)) g1 = Inr g'"
    unfolding vfe prod.case ebind_Inr_iff
    by (cases "cleanup_duplicate_verts vs fs") (auto simp: ebind_Inr_iff)
  with sb vf show thesis unfolding sbe vfe by (rule that)
qed

lemma mesh_data_uv:
  assumes "populate_geometry_with_mesh_data ob g = Inr g'"
  shows "length (g_uv_layers g') \<le> max (length (g_uv_layers g)) (max_uv_layers ob)"
proof -
  from assms obtain skin_plg bone_groups vs fs g1 where
    v: "populate_geometry_from_vertices_data (fst (cleanup_duplicate_verts vs fs)) skin_plg
       (o_mesh ob) ob g = Inr g1"
    and f: "populate_geometry_from_faces_data (snd (cleanup_duplicate_verts vs fs)) g1 = Inr g'"
    by (rule mesh_data_split)
  from vertices_data_uv [OF v] faces_data_uv [OF f] show ?thesis by simp
qed
subsection \<open>Skin binding\<close>

lemma skin_bones_loop_result:
  "skin_bones_loop vg i bs skin bg = Inr (skin', bg') \<Longrightarrow>
     length (sk_bone_matrices skin') = length (sk_bone_matrices skin) + length bs
     \<and> sk_num_bones skin' = sk_num_bones skin
     \<and> sk_vertex_bone_indices skin' = sk_vertex_bone_indices skin
     \<and> sk_vertex_bone_weights skin' = sk_vertex_bone_weights skin"
proof (induction bs arbitrary: i skin bg)
  case Nil
  then show ?case by simp
next
  case (Cons b bs)
  from Cons.prems obtain m where m: "b_inverted b = Some m"
    by (cases "b_inverted b") auto
  let ?skin1 = "skin\<lparr>sk_bone_matrices := sk_bone_matrices skin @ [transposed4 m]\<rparr>"
  let ?bg1 = "case vg (b_name b) of None \<Rightarrow> bg | Some g \<Rightarrow> bg(g \<mapsto> i)"
  from Cons.prems m have "skin_bones_loop vg (i + 1) bs ?skin1 ?bg1 = Inr (skin', bg')"
    by (simp add: Let_def)
  from Cons.IH [OF this] show ?case by simp
qed

lemma get_skin_result:
  assumes arm: "find_armature (o_modifiers ob) = Some arm"
    and res: "get_skin_plg_and_bone_groups ob = Inr (sk, bg)"
  shows "\<exists>skin. sk = Some skin
           \<and> length (sk_bone_matrices skin) = length (ar_bones arm)
           \<and> sk_num_bones skin = length (ar_bones arm)
           \<and> sk_vertex_bone_indices skin = [] \<and> sk_vertex_bone_weights skin = []"
proof -
  let ?s0 = "new_SkinPLG\<lparr>sk_num_bones := length (ar_bones arm)\<rparr>"
  from res arm obtain skin where
    loop: "skin_bones_loop (o_vertex_groups ob) 0 (ar_bones arm) ?s0 Map.empty = Inr (skin, bg)"
    and sk: "sk = Some skin"
    by (auto simp: get_skin_plg_and_bone_groups_def ebind_Inr_iff)
  from skin_bones_loop_result [OF loop] sk show ?thesis
    by (simp add: new_SkinPLG_def)
qed

lemma length_collect_bones: "length (collect_bones bg gs bs) \<le> max 4 (length bs)"
proof (induction gs arbitrary: bs)
  case Nil
  show ?case by simp
next
  case (Cons g gs)
  show ?case
  proof (cases "length bs \<ge> 4")
    case True
    then show ?thesis by simp
  next
    case False
    have a: "length (collect_bones bg gs bs) \<le> 4"
      using Cons.IH [of bs] False by simp
    have b: "length (collect_bones bg gs (bs @ [x])) \<le> 4" for x
      using Cons.IH [of "bs @ [x]"] False by simp
    from False a b show ?thesis by (simp split: option.splits)
  qed
qed

lemma collect_corner_result:
  assumes "collect_corner m bg li vs = Inr vs'"
  shows "\<exists>v. vs' = vs @ [v] \<and> v_tmp_idx v = length vs \<and> length (v_bones v) \<le> 4"
  using assms length_collect_bones [of bg _ "[]"]
  by (auto simp: collect_corner_def ebind_Inr_iff)

lemma corners_ok_snoc:
  "corners_ok vs \<Longrightarrow> v_tmp_idx v = length vs \<Longrightarrow> length (v_bones v) \<le> 4 \<Longrightarrow> corners_ok (vs @ [v])"
  by (auto simp: corners_ok_def)

lemma collect_loops_ok:
  "collect_loops m bg lis vs = Inr vs' \<Longrightarrow> corners_ok vs \<Longrightarrow> corners_ok vs'"
proof (induction lis arbitrary: vs)
  case Nil
  then show ?case by simp
next
  case (Cons li lis)
  from Cons.prems(1) obtain vs1 where
    c: "collect_corner m bg li vs = Inr vs1" and r: "collect_loops m bg lis vs1 = Inr vs'"
    by (auto simp: ebind_Inr_iff)
  from collect_corner_result [OF c] Cons.prems(2) have "corners_ok vs1"
    by (auto intro: corners_ok_snoc)
  with Cons.IH [OF r] show ?case by blast
qed

lemma collect_polygons_ok:
  "collect_polygons m bg idx ps vs fs = Inr (vs', fs') \<Longrightarrow> corners_ok vs \<Longrightarrow> corners_ok vs'"
proof (induction ps arbitrary: idx vs fs)
  case Nil
  then show ?case by simp
next
  case (Cons p ps)
  from Cons.prems(1) obtain vs1 fs1 where
    c: "collect_loops m bg (pl_loop_indices p) vs = Inr vs1"
    and r: "collect_polygons m bg (idx + 1) ps vs1 fs1 = Inr (vs', fs')"
    by (auto simp: ebind_Inr_iff Let_def)
  from collect_loops_ok [OF c Cons.prems(2)] Cons.IH [OF r] show ?case by blast
qed

lemma set_bones_result:
  "set_bones i bs (is, ws) = Inr (is', ws') \<Longrightarrow> i \<le> length is \<Longrightarrow> i \<le> length ws \<Longrightarrow>
     i + length bs \<le> length is \<and> i + length bs \<le> length ws
     \<and> is' = take i is @ map fst bs @ drop (i + length bs) is
     \<and> ws' = take i ws @ map snd bs @ drop (i + length bs) ws"
proof (induction bs arbitrary: i "is" ws)
  case Nil
  then show ?case by simp
next
  case (Cons b bs)
  from Cons.prems(1) have lt: "i < length is" "i < length ws"
    and r: "set_bones (i + 1) bs (is[i := fst b], ws[i := snd b]) = Inr (is', ws')"
    by (auto split: if_splits)
  from lt have le: "i + 1 \<le> length (is[i := fst b])" "i + 1 \<le> length (ws[i := snd b])"
    by simp_all
  from Cons.IH [OF r le] lt show ?case
    by (simp add: take_Suc_conv_app_nth)
qed

lemma set_bones_zero:
  assumes "set_bones 0 bs ([0, 0, 0, 0], [0, 0, 0, 0]) = Inr (is', ws')"
  shows "length bs \<le> 4 \<and> is' = pad4 0 (map fst bs) \<and> ws' = pad4 0 (map snd bs)"
proof -
  have z: "[0, 0, 0, 0] = replicate 4 (0::nat)" "[0, 0, 0, 0] = replicate 4 (0::real)"
    by (simp_all add: numeral_eq_Suc)
  from set_bones_result [OF assms] show ?thesis
    unfolding z by (simp add: pad4_def)
qed


lemma skin_after_Nil: "skin_after skin [] = skin"
  by (simp add: skin_after_def)

lemma skin_after_Cons: "skin_after skin (v # vs) = skin_after (skin_after skin [v]) vs"
  by (simp add: skin_after_def)

lemma vertex_step_skin:
  assumes "vertex_step hp hn mx v (g, ex, Some skin) = Inr (g', ex', sk')"
  shows "sk' = Some (skin_after skin [v]) \<and> g_vertices g' = g_vertices g @ [v_co v]
           \<and> g_ext_skin g' = g_ext_skin g"
proof -
  from assms obtain g3 is' ws' where
    sb: "set_bones 0 (v_bones v) ([0, 0, 0, 0], [0, 0, 0, 0]) = Inr (is', ws')"
    and sk': "sk' = Some (skin\<lparr>sk_vertex_bone_indices := sk_vertex_bone_indices skin @ [is'],
                            sk_vertex_bone_weights := sk_vertex_bone_weights skin @ [ws']\<rparr>)"
    and g': "g_vertices g' = g_vertices g @ [v_co v]" "g_ext_skin g' = g_ext_skin g"
    by (auto simp: vertex_step_def ebind_Inr_iff Let_def split: if_splits)
  from set_bones_zero [OF sb] sk' g' show ?thesis by (simp add: skin_after_def)
qed

lemma vertices_loop_skin:
  assumes "vertices_loop hp hn mx vs (g, ex, Some skin) = Inr (g', ex', sk')"
  shows "sk' = Some (skin_after skin vs) \<and> g_vertices g' = g_vertices g @ map v_co vs
           \<and> g_ext_skin g' = g_ext_skin g"
  using assms
proof (induction vs arbitrary: g ex skin)
  case Nil
  then show ?case by (simp add: skin_after_Nil)
next
  case (Cons v vs)
  from Cons.prems obtain g1 ex1 sk1 where
    step: "vertex_step hp hn mx v (g, ex, Some skin) = Inr (g1, ex1, sk1)"
    and rest: "vertices_loop hp hn mx vs (g1, ex1, sk1) = Inr (g', ex', sk')"
    by (auto simp: ebind_Inr_iff)
  from vertex_step_skin [OF step] have
    s1: "sk1 = Some (skin_after skin [v])" and g1: "g_vertices g1 = g_vertices g @ [v_co v]"
      "g_ext_skin g1 = g_ext_skin g"
    by simp_all
  from Cons.IH [OF rest [unfolded s1]] g1 show ?case
    by (simp add: skin_after_Cons [of skin v vs])
qed

lemma vertices_data_skin:
  assumes "populate_geometry_from_vertices_data vs (Some skin) m ob g = Inr g'"
  shows "g_ext_skin g' = Some (skin_after skin vs) \<and> g_vertices g' = g_vertices g @ map v_co vs"
proof -
  from assms obtain g1 ex1 sk1 where
    loop: "vertices_loop (length (me_vertex_colors m) > 0 \<and> o_day_cols ob)
             (length (me_vertex_colors m) > 1 \<and> o_night_cols ob) (max_uv_layers ob) vs (g, [], Some skin)
           = Inr (g1, ex1, sk1)"
    and g': "g' = (let g2 = (case sk1 of None \<Rightarrow> g1 | Some skin \<Rightarrow> g1\<lparr>g_ext_skin := Some skin\<rparr>)
                   in if length (me_vertex_colors m) > 1 \<and> o_night_cols ob
                      then g2\<lparr>g_ext_extra_vert_color := Some ex1\<rparr> else g2)"
    by (auto simp: populate_geometry_from_vertices_data_def ebind_Inr_iff Let_def)
  from vertices_loop_skin [OF loop] g' show ?thesis by (simp add: Let_def)
qed

lemma faces_data_keeps:
  "populate_geometry_from_faces_data fs g = Inr g' \<Longrightarrow>
     g_ext_skin g' = g_ext_skin g \<and> g_vertices g' = g_vertices g"
  by (induction fs arbitrary: g) (auto simp: ebind_Inr_iff)

lemma corners_ok_Nil: "corners_ok []"
  by (simp add: corners_ok_def)

lemma tri_find_armature: "find_armature (o_modifiers tri_obj) = Some tri_armature"
  by (simp add: tri_obj_def plain_obj_def)

lemma tri_skin_groups:
  "get_skin_plg_and_bone_groups tri_obj =
     Inr (Some \<lparr>sk_num_bones = 2, sk_bone_matrices = [id4, id4],
                 sk_vertex_bone_indices = [], sk_vertex_bone_weights = []\<rparr>, [0 \<mapsto> 0, 1 \<mapsto> 1])"
  by (simp add: get_skin_plg_and_bone_groups_def tri_obj_def plain_obj_def tri_armature_def
        tri_bone_def new_SkinPLG_def id4_def)

lemma tri_collect:
  "collect_polygons tri_mesh [0 \<mapsto> 0, 1 \<mapsto> 1] 0 (me_polygons tri_mesh) [] [] =
     Inr (tri_corners, tri_faces)"
  by (simp add: tri_mesh_def collect_corner_def nth_py_def tri_corners_def tri_faces_def)

lemma tri_corners_cleanup:
  "cleanup_duplicate_verts tri_corners tri_faces = (tri_corners, tri_faces)"
  by (simp add: cleanup_eq tri_corners_def tri_faces_def same_vert_def remap_face_def
        remap_idx_def find_vert_idx_by_tmp_idx_def)

lemma tri_vertices_data:
  "populate_geometry_from_vertices_data tri_corners
      (Some \<lparr>sk_num_bones = 2, sk_bone_matrices = [id4, id4],
                 sk_vertex_bone_indices = [], sk_vertex_bone_weights = []\<rparr>) tri_mesh tri_obj new_Geometry
     = Inr (tri_geometry\<lparr>g_triangles := []\<rparr>)"
  by (simp add: populate_geometry_from_vertices_data_def vertex_step_def tri_corners_def
        tri_mesh_def tri_obj_def plain_obj_def max_uv_layers_def new_Geometry_def tri_geometry_def
        tri_skin_def Let_def)

lemma tri_faces_data:
  "populate_geometry_from_faces_data tri_faces (tri_geometry\<lparr>g_triangles := []\<rparr>) = Inr tri_geometry"
  by (simp add: tri_faces_def face_triangle_def nth_py_def tri_geometry_def new_Geometry_def)

lemma tri_obj_mesh: "o_mesh tri_obj = tri_mesh"
  by (simp add: tri_obj_def plain_obj_def)

lemma tri_mesh_data: "populate_geometry_with_mesh_data tri_obj new_Geometry = Inr tri_geometry"
  by (simp only: populate_geometry_with_mesh_data_def Let_def tri_obj_mesh tri_skin_groups
        ebind_Inr prod.case tri_collect tri_corners_cleanup tri_vertices_data tri_faces_data)
lemma tri_exported_corners: "exported_corners tri_obj = tri_corners"
  by (simp only: exported_corners_def tri_skin_groups tri_obj_mesh sum.case prod.case tri_collect
        tri_corners_cleanup fst_conv)

subsection \<open>Bounding sphere\<close>

lemma list8:
  assumes "length xs = 8"
  obtains c1 c2 c3 c4 c5 c6 c7 c8 where "xs = [c1, c2, c3, c4, c5, c6, c7, c8]"
proof -
  from assms have "length xs = Suc (Suc (Suc (Suc (Suc (Suc (Suc (Suc 0)))))))" by simp
  then show thesis
    by (auto simp: length_Suc_conv intro: that)
qed

lemma mat_vec_average8:
  "mat_vec M (vscale 0.125 (foldl vadd (0, 0, 0) [c1, c2, c3, c4, c5, c6, c7, c8])) =
   vscale (1 / 8) (foldl vadd (0, 0, 0) (map (mat_vec M) [c1, c2, c3, c4, c5, c6, c7, c8]))"
proof -
  obtain r0 r1 r2 r3 where M: "M = (r0, r1, r2, r3)" by (cases M)
  obtain a0 a1 a2 a3 where r0: "r0 = (a0, a1, a2, a3)" by (cases r0)
  obtain b0 b1 b2 b3 where r1: "r1 = (b0, b1, b2, b3)" by (cases r1)
  obtain d0 d1 d2 d3 where r2: "r2 = (d0, d1, d2, d3)" by (cases r2)
  obtain x1 y1 z1 where c1: "c1 = (x1, y1, z1)" by (cases c1)
  obtain x2 y2 z2 where c2: "c2 = (x2, y2, z2)" by (cases c2)
  obtain x3 y3 z3 where c3: "c3 = (x3, y3, z3)" by (cases c3)
  obtain x4 y4 z4 where c4: "c4 = (x4, y4, z4)" by (cases c4)
  obtain x5 y5 z5 where c5: "c5 = (x5, y5, z5)" by (cases c5)
  obtain x6 y6 z6 where c6: "c6 = (x6, y6, z6)" by (cases c6)
  obtain x7 y7 z7 where c7: "c7 = (x7, y7, z7)" by (cases c7)
  obtain x8 y8 z8 where c8: "c8 = (x8, y8, z8)" by (cases c8)
  show ?thesis
    unfolding M r0 r1 r2 c1 c2 c3 c4 c5 c6 c7 c8
    by (simp add: algebra_simps add_divide_distrib)
qed

lemma sqrt3_not_1732: "sqrt 3 \<noteq> 1.732"
proof
  assume a: "sqrt 3 = 1.732"
  have "(sqrt 3)\<^sup>2 = 3" by simp
  moreover have "(1.732::real)\<^sup>2 \<noteq> 3" by (simp add: power2_eq_square)
  ultimately show False unfolding a by simp
qed

lemma sphere_center_average:
  assumes "length (o_bound_box ob) = 8"
  shows "sphere_center ob =
           vscale (1 / 8) (foldl vadd (0, 0, 0) (map (mat_vec (o_matrix_world ob)) (o_bound_box ob)))"
proof -
  from assms obtain c1 c2 c3 c4 c5 c6 c7 c8 where
    bb: "o_bound_box ob = [c1, c2, c3, c4, c5, c6, c7, c8]" by (rule list8)
  show ?thesis unfolding sphere_center_def bb by (rule mat_vec_average8)
qed

section \<open>Frames and the export pass: lemmas\<close>

lemma grows_refl: "grows s s"
  by (auto simp: grows_def)

lemma grows_trans: "grows s s1 \<Longrightarrow> grows s1 s2 \<Longrightarrow> grows s s2"
  unfolding grows_def by (meson prefix_order.trans)

lemma get_current_clump_Inr:
  "get_current_clump s = Inr (k, c) \<longleftrightarrow> current_clump s = Some k \<and> map_of (clumps s) k = Some c"
  by (auto simp: get_current_clump_def split: option.splits)

lemma put_clump_simps [simp]:
  "clumps (put_clump k c s) = AList.update k c (clumps s)"
  "frames (put_clump k c s) = frames s"
  "bones (put_clump k c s) = bones s"
  "parent_queue (put_clump k c s) = parent_queue s"
  "current_clump (put_clump k c s) = current_clump s"
  "uvanim_dict (put_clump k c s) = uvanim_dict s"
  "dff_clumps (put_clump k c s) = dff_clumps s"
  by (simp_all add: put_clump_def)

lemma map_of_update: "map_of (AList.update k c al) k' = (if k' = k then Some c else map_of al k')"
  by (simp add: AList.update_conv')

lemma create_frameE:
  assumes "create_frame nd ap sp s = Inr (fr, s')" and "parent_queue s = Map.empty"
  obtains k c where
    "current_clump s = Some k" "map_of (clumps s) k = Some c"
    "fr_parent fr = - 1 \<or>
       (\<exists>pn p. n_parent nd = Some pn \<and> (if n_is_bone nd then bones s else frames s) pn = Some p
          \<and> fr_parent fr = int p)"
    "clumps s' = AList.update k
        (c\<lparr>cl_frame_list := (if ap then cl_frame_list c @ [fr] else cl_frame_list c)\<rparr>) (clumps s)"
    "frames s' = (if n_is_bone nd then frames s else (frames s)(n_name nd \<mapsto> length (cl_frame_list c)))"
    "bones s' = (if n_is_bone nd then (bones s)(n_name nd \<mapsto> length (cl_frame_list c)) else bones s)"
    "parent_queue s' = Map.empty" "current_clump s' = Some k"
    "uvanim_dict s' = uvanim_dict s" "dff_clumps s' = dff_clumps s"
proof -
  from assms(1) obtain k c where cur: "get_current_clump s = Inr (k, c)"
    by (cases "get_current_clump s") (auto simp: create_frame_def)
  then have kc: "current_clump s = Some k" "map_of (clumps s) k = Some c"
    by (simp_all add: get_current_clump_Inr)
  have scan: "scan_parent_queue (parent_queue s) (n_name nd) (length (cl_frame_list c)) (cl_frame_list c)
        = Inr (cl_frame_list c)"
    by (simp add: scan_parent_queue_def assms(2))
  let ?frame = "\<lparr>fr_name = clear_extension (n_name nd), fr_creation_flags = 0, fr_parent = - 1,
                   fr_position = to_translation (n_matrix_local nd),
                   fr_rotation_matrix = transposed3 (to_3x3 (n_matrix_local nd)),
                   fr_user_data = map_option UserData (n_user_data nd), fr_bone_data = None\<rparr>"
  let ?s1 = "if n_is_bone nd then s\<lparr>bones := (bones s)(n_name nd \<mapsto> length (cl_frame_list c))\<rparr>
             else s\<lparr>frames := (frames s)(n_name nd \<mapsto> length (cl_frame_list c))\<rparr>"
  from assms(1) have
    fr: "(case n_parent nd of
            Some parent_name \<Rightarrow>
              if sp then (case (if n_is_bone nd then bones s else frames s) parent_name of
                            None \<Rightarrow> Inl KeyError
                          | Some p \<Rightarrow> Inr (?frame\<lparr>fr_parent := int p\<rparr>))
              else Inr ?frame
          | None \<Rightarrow> Inr ?frame) = Inr fr"
    and s': "s' = put_clump k (c\<lparr>cl_frame_list := (if ap then cl_frame_list c @ [fr] else cl_frame_list c)\<rparr>) ?s1"
    by (auto simp: create_frame_def cur scan Let_def ebind_Inr_iff)
  from fr have par: "fr_parent fr = - 1 \<or>
       (\<exists>pn p. n_parent nd = Some pn \<and> (if n_is_bone nd then bones s else frames s) pn = Some p
          \<and> fr_parent fr = int p)"
    by (auto split: option.splits if_splits)
  show thesis
    by (rule that [OF kc par]) (simp_all add: s' kc assms(2))
qed

lemma append_frameE:
  assumes "append_frame fr s = Inr s'"
  obtains k c where "current_clump s = Some k" "map_of (clumps s) k = Some c"
    "s' = put_clump k (c\<lparr>cl_frame_list := cl_frame_list c @ [fr]\<rparr>) s"
  using assms
  by (cases "get_current_clump s")
     (auto simp: append_frame_def get_current_clump_Inr)

lemma grows_update:
  assumes "map_of (clumps s) k = Some c" "prefix (cl_frame_list c) (cl_frame_list c')"
    "clumps s' = AList.update k c' (clumps s)"
  shows "grows s s'"
  using assms by (auto simp: grows_def map_of_update)

lemma create_frame_grows:
  assumes "create_frame nd ap sp s = Inr (fr, s')" and "parent_queue s = Map.empty"
  shows "parent_queue s' = Map.empty \<and> grows s s'"
proof -
  from assms obtain k c where
    kc: "map_of (clumps s) k = Some c"
    and cl: "clumps s' = AList.update k
        (c\<lparr>cl_frame_list := (if ap then cl_frame_list c @ [fr] else cl_frame_list c)\<rparr>) (clumps s)"
    and q: "parent_queue s' = Map.empty"
    by (rule create_frameE)
  from grows_update [OF kc _ cl] q show ?thesis by simp
qed

lemma append_frame_grows:
  assumes "append_frame fr s = Inr s'"
  shows "parent_queue s' = parent_queue s \<and> grows s s'"
proof -
  from assms obtain k c where kc: "map_of (clumps s) k = Some c"
    and s': "s' = put_clump k (c\<lparr>cl_frame_list := cl_frame_list c @ [fr]\<rparr>) s"
    by (rule append_frameE)
  have "grows s s'" by (rule grows_update [OF kc]) (simp_all add: s')
  then show ?thesis by (simp add: s')
qed

lemma export_bone_split:
  assumes "export_bone ob i b s = Inr s'"
  obtains fr s1 fr' where
    "create_frame (bone_node b) False True s = Inr (fr, s1)"
    "append_frame fr' s1 = Inr s'"
    "fr_parent fr' = fr_parent fr \<or>
       (\<exists>pn p. i = 0 \<and> o_parent ob = Some pn \<and> frames s1 pn = Some p \<and> fr_parent fr' = int p)"
proof -
  from assms obtain fr s1 where cf: "create_frame (bone_node b) False True s = Inr (fr, s1)"
    and rest: "(if i = 0 then
         ebind (case o_parent ob of
                  Some parent_name \<Rightarrow>
                    (case frames s1 parent_name of
                       None \<Rightarrow> Inl KeyError
                     | Some p \<Rightarrow> Inr (fr\<lparr>fr_parent := int p\<rparr>))
                | None \<Rightarrow> Inr fr) (\<lambda>frame.
         ebind (custom_prop (b_bone_id b)) (\<lambda>bone_id.
         ebind (hanim_bones 0 (o_bones ob)) (\<lambda>bs.
           append_frame
             (frame\<lparr>fr_bone_data :=
                Some \<lparr>ha_header = (0x100, bone_id, length (o_bones ob)), ha_bones = bs\<rparr>\<rparr>) s1)))
       else
         ebind (custom_prop (b_bone_id b)) (\<lambda>bone_id.
           append_frame
             (fr\<lparr>fr_bone_data := Some \<lparr>ha_header = (0x100, bone_id, 0), ha_bones = []\<rparr>\<rparr>) s1)) = Inr s'"
    unfolding export_bone_def ebind_Inr_iff by (auto split: prod.splits)
  show thesis
  proof (cases "i = 0")
    case False
    with rest obtain bone_id where
      "append_frame (fr\<lparr>fr_bone_data := Some \<lparr>ha_header = (0x100, bone_id, 0), ha_bones = []\<rparr>\<rparr>) s1 = Inr s'"
      by (auto simp: ebind_Inr_iff)
    then show thesis by (rule that [OF cf]) simp
  next
    case True
    with rest obtain frame bone_id bs where
      f: "(case o_parent ob of
                  Some parent_name \<Rightarrow>
                    (case frames s1 parent_name of
                       None \<Rightarrow> Inl KeyError
                     | Some p \<Rightarrow> Inr (fr\<lparr>fr_parent := int p\<rparr>))
                | None \<Rightarrow> Inr fr) = Inr frame"
      and a: "append_frame
             (frame\<lparr>fr_bone_data :=
                Some \<lparr>ha_header = (0x100, bone_id, length (o_bones ob)), ha_bones = bs\<rparr>\<rparr>) s1 = Inr s'"
      by (auto simp: ebind_Inr_iff)
    from f True have "fr_parent frame = fr_parent fr \<or>
       (\<exists>pn p. i = 0 \<and> o_parent ob = Some pn \<and> frames s1 pn = Some p \<and> fr_parent frame = int p)"
      by (auto split: option.splits)
    then show thesis by (intro that [OF cf a]) simp
  qed
qed

lemma export_bone_grows:
  assumes "export_bone ob i b s = Inr s'" and "parent_queue s = Map.empty"
  shows "parent_queue s' = Map.empty \<and> grows s s'"
proof -
  from assms(1) obtain fr s1 fr' where
    cf: "create_frame (bone_node b) False True s = Inr (fr, s1)"
    and af: "append_frame fr' s1 = Inr s'"
    by (rule export_bone_split)
  from create_frame_grows [OF cf assms(2)] append_frame_grows [OF af]
  show ?thesis by (auto intro: grows_trans)
qed

lemma export_bones_grows:
  "export_bones ob i bs s = Inr s' \<Longrightarrow> parent_queue s = Map.empty \<Longrightarrow>
     parent_queue s' = Map.empty \<and> grows s s'"
proof (induction bs arbitrary: i s)
  case Nil
  then show ?case by (simp add: grows_refl)
next
  case (Cons b bs)
  from Cons.prems(1) obtain s1 where
    b: "export_bone ob i b s = Inr s1" and r: "export_bones ob (i + 1) bs s1 = Inr s'"
    by (auto simp: ebind_Inr_iff)
  from export_bone_grows [OF b Cons.prems(2)] have 1: "parent_queue s1 = Map.empty" "grows s s1"
    by simp_all
  from Cons.IH [OF r 1(1)] 1(2) show ?case by (auto intro: grows_trans)
qed

lemma populate_atomic_split:
  assumes "populate_atomic fps ob s = Inr s'"
  obtains g fr s1 materials uvd k c where
    "populate_geometry_with_mesh_data ob new_Geometry = Inr g"
    "create_frame (obj_node ob) True True s = Inr (fr, s1)"
    "generate_material_list fps (o_materials ob) [] (uvanim_dict s1) = Inr (materials, uvd)"
    "get_current_clump s1 = Inr (k, c)"
    "s' = put_clump k
       (c\<lparr>cl_geometry_list := cl_geometry_list c @
           [g\<lparr>g_bounding_sphere := Some (bounding_sphere ob),
              g_surface_properties := Some (0, 0, 0),
              g_materials := materials,
              g_export_normals := o_export_normals ob,
              g_write_mesh_plg := o_export_binsplit ob,
              g_light := o_light ob,
              g_modulate_color := o_modulate_color ob,
              g_ext_user_data := map_option UserData (o_data_user_data ob),
              g_pipeline := o_pipeline ob\<rparr>],
          cl_atomic_list := cl_atomic_list c @
            [(length (cl_frame_list c) - 1, length (cl_geometry_list c), 0x4, 0)]\<rparr>)
       (s1\<lparr>uvanim_dict := uvd\<rparr>)"
proof -
  from assms obtain g where g: "populate_geometry_with_mesh_data ob new_Geometry = Inr g"
    by (cases "populate_geometry_with_mesh_data ob new_Geometry") (auto simp: populate_atomic_def)
  from assms obtain fr s1 where cf: "create_frame (obj_node ob) True True s = Inr (fr, s1)"
    by (cases "create_frame (obj_node ob) True True s") (auto simp: populate_atomic_def g)
  from assms obtain materials uvd where
    ml: "generate_material_list fps (o_materials ob) [] (uvanim_dict s1) = Inr (materials, uvd)"
    by (cases "generate_material_list fps (o_materials ob) [] (uvanim_dict s1)")
       (auto simp: populate_atomic_def g cf)
  from assms obtain k c where cur: "get_current_clump s1 = Inr (k, c)"
    by (cases "get_current_clump s1") (auto simp: populate_atomic_def g cf ml)
  from assms show thesis
    by (intro that [OF g cf ml cur]) (simp add: populate_atomic_def g cf ml cur Let_def)
qed

lemma populate_atomic_grows:
  assumes "populate_atomic fps ob s = Inr s'" and "parent_queue s = Map.empty"
  shows "parent_queue s' = Map.empty \<and> grows s s'"
proof -
  from assms(1) obtain fr s1 k c c' uvd where
    cf: "create_frame (obj_node ob) True True s = Inr (fr, s1)"
    and cur: "get_current_clump s1 = Inr (k, c)"
    and s': "s' = put_clump k c' (s1\<lparr>uvanim_dict := uvd\<rparr>)"
    and fl: "cl_frame_list c' = cl_frame_list c"
    by (rule populate_atomic_split) simp
  from create_frame_grows [OF cf assms(2)] have 1: "parent_queue s1 = Map.empty" "grows s s1"
    by simp_all
  from cur have "map_of (clumps s1) k = Some c" by (simp add: get_current_clump_Inr)
  then have "grows s1 s'" by (rule grows_update) (simp_all add: fl s')
  with 1 show ?thesis by (auto simp: s' intro: grows_trans)
qed

lemma grows_add_clump:
  "map_of (clumps s) k = None \<Longrightarrow> grows s (s\<lparr>clumps := clumps s @ [(k, c)], current_clump := x\<rparr>)"
  by (auto simp: grows_def map_add_def split: option.splits)

lemma export_object_grows:
  assumes "export_object fps ob s = Inr s'" and "parent_queue s = Map.empty"
  shows "parent_queue s' = Map.empty \<and> grows s s'"
proof -
  define s2 where "s2 = (if map_of (clumps s) (o_clump ob) = None
                then s\<lparr>clumps := clumps s @ [(o_clump ob, new_Clump)]\<rparr> else s)
                \<lparr>current_clump := Some (o_clump ob)\<rparr>"
  have q2: "parent_queue s2 = Map.empty" using assms(2) by (simp add: s2_def)
  have g2: "grows s s2"
    by (auto simp: s2_def grows_def map_add_def split: option.splits)
  have r: "(case o_type ob of
           MESH \<Rightarrow> populate_atomic fps ob s2
         | EMPTY \<Rightarrow> ebind (create_frame (obj_node ob) True True s2) (\<lambda>(frame, s3). Inr s3)
         | ARMATURE \<Rightarrow> export_armature ob s2
         | OTHER \<Rightarrow> Inr s2) = Inr s'"
    using assms(1) unfolding export_object_def Let_def s2_def .
  have "parent_queue s' = Map.empty \<and> grows s2 s'"
  proof (cases "o_type ob")
    case MESH
    with r populate_atomic_grows [OF _ q2] show ?thesis by simp
  next
    case EMPTY
    with r obtain fr where "create_frame (obj_node ob) True True s2 = Inr (fr, s')"
      by (auto simp: ebind_Inr_iff)
    from create_frame_grows [OF this q2] show ?thesis .
  next
    case ARMATURE
    with r export_bones_grows [OF _ q2] show ?thesis by (simp add: export_armature_def)
  next
    case OTHER
    with r q2 show ?thesis by (auto simp: grows_refl)
  qed
  with g2 show ?thesis by (auto intro: grows_trans)
qed

lemma objects_loop_grows:
  "objects_loop fps obs s = Inr s' \<Longrightarrow> parent_queue s = Map.empty \<Longrightarrow>
     parent_queue s' = Map.empty \<and> grows s s'"
proof (induction obs arbitrary: s)
  case Nil
  then show ?case by (simp add: grows_refl)
next
  case (Cons ob obs)
  from Cons.prems(1) obtain s1 where
    b: "export_object fps ob s = Inr s1" and r: "objects_loop fps obs s1 = Inr s'"
    by (auto simp: ebind_Inr_iff)
  from export_object_grows [OF b Cons.prems(2)] have 1: "parent_queue s1 = Map.empty" "grows s s1"
    by simp_all
  from Cons.IH [OF r 1(1)] 1(2) show ?case by (auto intro: grows_trans)
qed

lemma objects_loop_append:
  "objects_loop fps (xs @ ys) s = ebind (objects_loop fps xs s) (objects_loop fps ys)"
  by (induction xs arbitrary: s) (auto simp: ebind_def split: sum.splits)

lemma frames_ok_Nil: "frames_ok []"
  by (simp add: frames_ok_def)

lemma frames_ok_snoc:
  assumes "frames_ok fl" "fr_parent fr = - 1 \<or> fr_parent fr < int (length fl)"
  shows "frames_ok (fl @ [fr])"
  using assms by (auto simp: frames_ok_def nth_append less_Suc_eq)

lemma pass_invI:
  assumes "parent_queue s = Map.empty" "distinct (map fst (clumps s))"
    "fst ` set (clumps s) \<subseteq> {k}"
    "\<And>name p. frames s name = Some p \<Longrightarrow> p < frame_count k s"
    "\<And>name p. bones s name = Some p \<Longrightarrow> p < frame_count k s"
    "\<And>c. map_of (clumps s) k = Some c \<Longrightarrow> frames_ok (cl_frame_list c)"
  shows "pass_inv k s"
  using assms unfolding pass_inv_def by blast

lemma create_frame_inv:
  assumes inv: "pass_inv k s" and cur: "current_clump s = Some k"
    and cf: "create_frame nd True sp s = Inr (fr, s')"
  shows "pass_inv k s' \<and> current_clump s' = Some k \<and> dff_clumps s' = dff_clumps s"
proof -
  from inv have q: "parent_queue s = Map.empty" by (simp add: pass_inv_def)
  from cf q obtain k0 c where
    k0: "current_clump s = Some k0" and c: "map_of (clumps s) k0 = Some c"
    and par: "fr_parent fr = - 1 \<or>
       (\<exists>pn p. n_parent nd = Some pn \<and> (if n_is_bone nd then bones s else frames s) pn = Some p
          \<and> fr_parent fr = int p)"
    and cl: "clumps s' = AList.update k0 (c\<lparr>cl_frame_list := (if True then cl_frame_list c @ [fr] else cl_frame_list c)\<rparr>) (clumps s)"
    and fs: "frames s' = (if n_is_bone nd then frames s else (frames s)(n_name nd \<mapsto> length (cl_frame_list c)))"
    and bs: "bones s' = (if n_is_bone nd then (bones s)(n_name nd \<mapsto> length (cl_frame_list c)) else bones s)"
    and q': "parent_queue s' = Map.empty" and cur': "current_clump s' = Some k0"
    and dff: "dff_clumps s' = dff_clumps s"
    by (rule create_frameE)
  from cur k0 have [simp]: "k0 = k" by simp
  have n: "frame_count k s = length (cl_frame_list c)"
    using c by (simp add: frame_count_def)
  have n': "frame_count k s' = Suc (length (cl_frame_list c))"
    by (simp add: frame_count_def cl map_of_update)
  from inv have regs: "\<And>name p. frames s name = Some p \<Longrightarrow> p < length (cl_frame_list c)"
    "\<And>name p. bones s name = Some p \<Longrightarrow> p < length (cl_frame_list c)"
    and ok: "frames_ok (cl_frame_list c)"
    using c by (auto simp: pass_inv_def n)
  have "pass_inv k s'"
  proof (rule pass_invI)
    show "parent_queue s' = Map.empty" by (rule q')
    show "distinct (map fst (clumps s'))"
      using inv by (simp add: cl AList.distinct_update pass_inv_def)
    show "fst ` set (clumps s') \<subseteq> {k}"
      using inv by (auto simp: cl AList.dom_update pass_inv_def)
    show "p < frame_count k s'" if "frames s' name = Some p" for name p
      using that regs(1) [of name p] by (auto simp: fs n' split: if_splits)
    show "p < frame_count k s'" if "bones s' name = Some p" for name p
      using that regs(2) [of name p] by (auto simp: bs n' split: if_splits)
    show "frames_ok (cl_frame_list c')" if "map_of (clumps s') k = Some c'" for c'
    proof -
      from that have c': "cl_frame_list c' = cl_frame_list c @ [fr]"
        by (auto simp: cl map_of_update)
      from par regs have "fr_parent fr = - 1 \<or> fr_parent fr < int (length (cl_frame_list c))"
        by (auto split: if_splits)
      with ok show ?thesis unfolding c' by (rule frames_ok_snoc)
    qed
  qed
  with cur' dff show ?thesis by simp
qed

lemma export_bone_inv:
  assumes inv: "pass_inv k s" and cur: "current_clump s = Some k"
    and eb: "export_bone ob i b s = Inr s'"
  shows "pass_inv k s' \<and> current_clump s' = Some k \<and> dff_clumps s' = dff_clumps s"
proof -
  from inv have q: "parent_queue s = Map.empty" by (simp add: pass_inv_def)
  from eb obtain fr s1 fr' where
    cf: "create_frame (bone_node b) False True s = Inr (fr, s1)"
    and af: "append_frame fr' s1 = Inr s'"
    and fr': "fr_parent fr' = fr_parent fr \<or>
       (\<exists>pn p. i = 0 \<and> o_parent ob = Some pn \<and> frames s1 pn = Some p \<and> fr_parent fr' = int p)"
    by (rule export_bone_split)
  from cf q obtain k0 c where
    k0: "current_clump s = Some k0" and c: "map_of (clumps s) k0 = Some c"
    and par: "fr_parent fr = - 1 \<or>
       (\<exists>pn p. n_parent (bone_node b) = Some pn
          \<and> (if n_is_bone (bone_node b) then bones s else frames s) pn = Some p
          \<and> fr_parent fr = int p)"
    and cl: "clumps s1 = AList.update k0 (c\<lparr>cl_frame_list := (if False then cl_frame_list c @ [fr] else cl_frame_list c)\<rparr>) (clumps s)"
    and fs: "frames s1 = (if n_is_bone (bone_node b) then frames s
                          else (frames s)(n_name (bone_node b) \<mapsto> length (cl_frame_list c)))"
    and bs: "bones s1 = (if n_is_bone (bone_node b)
                         then (bones s)(n_name (bone_node b) \<mapsto> length (cl_frame_list c)) else bones s)"
    and q1: "parent_queue s1 = Map.empty" and cur1: "current_clump s1 = Some k0"
    and dff1: "dff_clumps s1 = dff_clumps s"
    by (rule create_frameE)
  from cur k0 have [simp]: "k0 = k" by simp
  have isb: "n_is_bone (bone_node b)" by (simp add: bone_node_def)
  from af obtain k1 c1 where
    k1: "current_clump s1 = Some k1" and c1: "map_of (clumps s1) k1 = Some c1"
    and s': "s' = put_clump k1 (c1\<lparr>cl_frame_list := cl_frame_list c1 @ [fr']\<rparr>) s1"
    by (rule append_frameE)
  from cur1 k1 have [simp]: "k1 = k" by simp
  from c1 have fl1: "cl_frame_list c1 = cl_frame_list c" by (auto simp: cl map_of_update)
  have n: "frame_count k s = length (cl_frame_list c)"
    using c by (simp add: frame_count_def)
  have st: "frames s' = frames s1" "bones s' = bones s1" "parent_queue s' = parent_queue s1"
    "current_clump s' = current_clump s1"
    "clumps s' = AList.update k (c1\<lparr>cl_frame_list := cl_frame_list c1 @ [fr']\<rparr>) (clumps s1)"
    "dff_clumps s' = dff_clumps s1"
    by (simp_all add: s')
  have n': "frame_count k s' = Suc (length (cl_frame_list c))"
    by (simp add: frame_count_def st map_of_update fl1)
  from inv have regs: "\<And>name p. frames s name = Some p \<Longrightarrow> p < length (cl_frame_list c)"
    "\<And>name p. bones s name = Some p \<Longrightarrow> p < length (cl_frame_list c)"
    and ok: "frames_ok (cl_frame_list c)"
    using c by (auto simp: pass_inv_def n)
  have "pass_inv k s'"
  proof (rule pass_invI)
    show "parent_queue s' = Map.empty" by (simp add: st q1)
    show "distinct (map fst (clumps s'))"
      using inv by (simp add: st cl AList.distinct_update pass_inv_def)
    show "fst ` set (clumps s') \<subseteq> {k}"
      using inv by (auto simp: st cl AList.dom_update pass_inv_def)
    show "p < frame_count k s'" if "frames s' name = Some p" for name p
      using that regs(1) [of name p] by (auto simp: st fs isb n')
    show "p < frame_count k s'" if "bones s' name = Some p" for name p
      using that regs(2) [of name p] by (auto simp: st bs isb n' split: if_splits)
    show "frames_ok (cl_frame_list c')" if "map_of (clumps s') k = Some c'" for c'
    proof -
      from that have c': "cl_frame_list c' = cl_frame_list c @ [fr']"
        by (auto simp: st map_of_update fl1)
      from par regs(2) isb have "fr_parent fr = - 1 \<or> fr_parent fr < int (length (cl_frame_list c))"
        by auto
      with fr' regs(1) have "fr_parent fr' = - 1 \<or> fr_parent fr' < int (length (cl_frame_list c))"
        by (auto simp: fs isb)
      with ok show ?thesis unfolding c' by (rule frames_ok_snoc)
    qed
  qed
  then show ?thesis by (simp add: st cur1 dff1)
qed

lemma export_bones_inv:
  "export_bones ob i bs s = Inr s' \<Longrightarrow> pass_inv k s \<Longrightarrow> current_clump s = Some k \<Longrightarrow>
     pass_inv k s' \<and> current_clump s' = Some k \<and> dff_clumps s' = dff_clumps s"
proof (induction bs arbitrary: i s)
  case Nil
  then show ?case by simp
next
  case (Cons b bs)
  from Cons.prems(1) obtain s1 where
    b: "export_bone ob i b s = Inr s1" and r: "export_bones ob (i + 1) bs s1 = Inr s'"
    by (auto simp: ebind_Inr_iff)
  from export_bone_inv [OF Cons.prems(2,3) b] have 1: "pass_inv k s1" "current_clump s1 = Some k"
    "dff_clumps s1 = dff_clumps s"
    by simp_all
  from Cons.IH [OF r 1(1,2)] 1(3) show ?case by simp
qed

lemma populate_atomic_inv:
  assumes inv: "pass_inv k s" and cur: "current_clump s = Some k"
    and pa: "populate_atomic fps ob s = Inr s'"
  shows "pass_inv k s' \<and> current_clump s' = Some k \<and> dff_clumps s' = dff_clumps s"
proof -
  from pa obtain fr s1 k1 c c' uvd where
    cf: "create_frame (obj_node ob) True True s = Inr (fr, s1)"
    and cur1: "get_current_clump s1 = Inr (k1, c)"
    and s': "s' = put_clump k1 c' (s1\<lparr>uvanim_dict := uvd\<rparr>)"
    and fl: "cl_frame_list c' = cl_frame_list c"
    by (rule populate_atomic_split) simp
  from create_frame_inv [OF inv cur cf] have inv1: "pass_inv k s1" and c1: "current_clump s1 = Some k"
    and dff1: "dff_clumps s1 = dff_clumps s"
    by simp_all
  from cur1 c1 have [simp]: "k1 = k" and c: "map_of (clumps s1) k = Some c"
    by (auto simp: get_current_clump_Inr)
  have st: "frames s' = frames s1" "bones s' = bones s1" "parent_queue s' = parent_queue s1"
    "current_clump s' = current_clump s1" "clumps s' = AList.update k c' (clumps s1)"
    "dff_clumps s' = dff_clumps s1"
    by (simp_all add: s')
  have n: "frame_count k s' = frame_count k s1"
    by (simp add: frame_count_def st map_of_update c fl)
  have "pass_inv k s'"
  proof (rule pass_invI)
    show "parent_queue s' = Map.empty" using inv1 by (simp add: st pass_inv_def)
    show "distinct (map fst (clumps s'))"
      using inv1 by (simp add: st AList.distinct_update pass_inv_def)
    show "fst ` set (clumps s') \<subseteq> {k}"
      using inv1 by (auto simp: st AList.dom_update pass_inv_def)
    show "p < frame_count k s'" if "frames s' name = Some p" for name p
      using that inv1 by (auto simp: st n pass_inv_def)
    show "p < frame_count k s'" if "bones s' name = Some p" for name p
      using that inv1 by (auto simp: st n pass_inv_def)
    show "frames_ok (cl_frame_list c'')" if "map_of (clumps s') k = Some c''" for c''
    proof -
      from that have "c'' = c'" by (simp add: st map_of_update)
      then have "cl_frame_list c'' = cl_frame_list c" by (simp add: fl)
      moreover from inv1 c have "frames_ok (cl_frame_list c)" unfolding pass_inv_def by blast
      ultimately show ?thesis by simp
    qed
  qed
  then show ?thesis by (simp add: st c1 dff1)
qed

lemma export_object_inv:
  assumes inv: "pass_inv k s" and k: "o_clump ob = k"
    and eo: "export_object fps ob s = Inr s'"
  shows "pass_inv k s' \<and> dff_clumps s' = dff_clumps s"
proof -
  define s2 where "s2 = (if map_of (clumps s) (o_clump ob) = None
                then s\<lparr>clumps := clumps s @ [(o_clump ob, new_Clump)]\<rparr> else s)
                \<lparr>current_clump := Some (o_clump ob)\<rparr>"
  have cur2: "current_clump s2 = Some k" and dff2: "dff_clumps s2 = dff_clumps s"
    by (simp_all add: s2_def k)
  have inv2: "pass_inv k s2"
  proof (cases "map_of (clumps s) k = None")
    case False
    then have "s2 = s\<lparr>current_clump := Some k\<rparr>" by (simp add: s2_def k)
    with inv show ?thesis by (simp add: pass_inv_def frame_count_def)
  next
    case True
    then have "k \<notin> fst ` set (clumps s)" by (simp add: map_of_eq_None_iff)
    with inv have e: "clumps s = []" by (cases "clumps s") (auto simp: pass_inv_def)
    then have "s2 = s\<lparr>clumps := [(k, new_Clump)], current_clump := Some k\<rparr>"
      by (simp add: s2_def k)
    with inv e show ?thesis
      by (simp add: pass_inv_def frame_count_def new_Clump_def frames_ok_Nil)
  qed
  have r: "(case o_type ob of
           MESH \<Rightarrow> populate_atomic fps ob s2
         | EMPTY \<Rightarrow> ebind (create_frame (obj_node ob) True True s2) (\<lambda>(frame, s3). Inr s3)
         | ARMATURE \<Rightarrow> export_armature ob s2
         | OTHER \<Rightarrow> Inr s2) = Inr s'"
    using eo unfolding export_object_def Let_def s2_def .
  show ?thesis
  proof (cases "o_type ob")
    case MESH
    with r populate_atomic_inv [OF inv2 cur2] dff2 show ?thesis by simp
  next
    case EMPTY
    with r obtain fr where "create_frame (obj_node ob) True True s2 = Inr (fr, s')"
      by (auto simp: ebind_Inr_iff)
    from create_frame_inv [OF inv2 cur2 this] dff2 show ?thesis by simp
  next
    case ARMATURE
    with r export_bones_inv [OF _ inv2 cur2] dff2 show ?thesis by (simp add: export_armature_def)
  next
    case OTHER
    with r inv2 dff2 show ?thesis by auto
  qed
qed

lemma objects_loop_inv:
  "objects_loop fps obs s = Inr s' \<Longrightarrow> pass_inv k s \<Longrightarrow> \<forall>ob\<in>set obs. o_clump ob = k \<Longrightarrow>
     pass_inv k s' \<and> dff_clumps s' = dff_clumps s"
proof (induction obs arbitrary: s)
  case Nil
  then show ?case by simp
next
  case (Cons ob obs)
  from Cons.prems(1) obtain s1 where
    b: "export_object fps ob s = Inr s1" and r: "objects_loop fps obs s1 = Inr s'"
    by (auto simp: ebind_Inr_iff)
  from Cons.prems(3) have k: "o_clump ob = k" and ks: "\<forall>ob\<in>set obs. o_clump ob = k" by simp_all
  from export_object_inv [OF Cons.prems(2) k b] have 1: "pass_inv k s1" "dff_clumps s1 = dff_clumps s"
    by simp_all
  from Cons.IH [OF r 1(1) ks] 1(2) show ?case by simp
qed

lemma pass_inv_clumps:
  assumes "pass_inv k t" "c \<in> snd ` set (clumps t)"
  shows "frames_ok (cl_frame_list c)"
proof -
  from assms(2) obtain k' where kc: "(k', c) \<in> set (clumps t)" by force
  with assms(1) have "k' = k" by (force simp: pass_inv_def)
  with kc assms(1) have "map_of (clumps t) k = Some c" by (simp add: pass_inv_def)
  with assms(1) show ?thesis by (simp add: pass_inv_def)
qed

lemma export_objects_inv:
  assumes fresh: "clumps s = []" "frames s = Map.empty" "bones s = Map.empty"
      "parent_queue s = Map.empty"
    and one: "\<forall>ob\<in>set objs. o_clump ob = k"
    and res: "export_objects fps objs s = Inr s'"
  shows "pass_inv k s' \<and> set (dff_clumps s') \<subseteq> snd ` set (clumps s')"
proof -
  let ?s0 = "s\<lparr>uvanim_dict := [], dff_clumps := []\<rparr>"
  have inv0: "pass_inv k ?s0" using fresh by (simp add: pass_inv_def frame_count_def)
  show ?thesis
  proof (cases "length objs < 1")
    case True
    with res have "s' = ?s0" by (simp add: export_objects_def Let_def)
    with inv0 show ?thesis by simp
  next
    case False
    with res obtain t where loop: "objects_loop fps objs ?s0 = Inr t"
      and s': "s' = t\<lparr>dff_clumps := dff_clumps t @
                        map (\<lambda>clump_idx. the (map_of (clumps t) clump_idx))
                            (sort (map fst (clumps t)))\<rparr>"
      by (auto simp: export_objects_def Let_def ebind_Inr_iff)
    from objects_loop_inv [OF loop inv0 one] have inv: "pass_inv k t" and dt: "dff_clumps t = []"
      by simp_all
    have "the (map_of (clumps t) k') \<in> snd ` set (clumps t)" if "k' \<in> fst ` set (clumps t)" for k'
    proof -
      from that obtain c where "map_of (clumps t) k' = Some c"
        by (cases "map_of (clumps t) k'") (auto simp: map_of_eq_None_iff)
      then show ?thesis by (auto dest: map_of_SomeD intro: rev_image_eqI)
    qed
    then have "set (dff_clumps s') \<subseteq> snd ` set (clumps s')"
      by (auto simp: s' dt)
    moreover have "pass_inv k s'" using inv by (simp add: s' pass_inv_def frame_count_def)
    ultimately show ?thesis by simp
  qed
qed

lemmas eval_defs = export_objects_def export_object_def create_frame_def get_current_clump_def
  put_clump_def scan_parent_queue_def init_exporter_def obj_node_def plain_obj_def new_Clump_def
  obj_a_def obj_b_def obj_c_def result_parents_def parent_table_def Let_def

lemma two_clumps_eval:
  "result_parents (export_objects 24 [obj_a, obj_b, obj_c 1] init_exporter) = Some [[- 1, - 1], [1]]"
  by (simp add: eval_defs)

lemma one_clump_eval:
  "result_parents (export_objects 24 [obj_a, obj_b, obj_c 0] init_exporter) = Some [[- 1, - 1, 1]]"
  by (simp add: eval_defs)

section \<open>Claims about the geometry builder\<close>



text \<open>
  C5. A face whose remapped indices are \<open>a, b, c\<close> and whose material index is \<open>m\<close> is
  emitted as the triangle \<open>(b, a, m, c)\<close>, in the order of the face list, after the
  triangles the geometry already has.
\<close>

theorem triangles_swap_first_two:
  "populate_geometry_from_faces_data
     (map (\<lambda>(a, b, c, m). \<lparr>f_verts = [a, b, c], f_mat_idx = m\<rparr>) abcs) g =
   Inr (g\<lparr>g_triangles := g_triangles g @ map (\<lambda>(a, b, c, m). (b, a, m, c)) abcs\<rparr>)"
proof (induction abcs arbitrary: g)
  case Nil
  show ?case by simp
next
  case (Cons x xs)
  obtain a b c m where x: "x = (a, b, c, m)" by (cases x)
  show ?case
    by (simp add: x face_triangle_def nth_py_def ebind_def Cons.IH)
qed


text \<open>
  C9, as stated, fails. For the quad the first pass leaves four vertices whose
  \<^verbatim>\<open>tmp_idx\<close> are 0, 1, 2, 5 and the triangles (0, 1, 2) and (0, 2, 3). A second pass
  looks every triangle entry up as a \<^verbatim>\<open>tmp_idx\<close>: no vertex has \<^verbatim>\<open>tmp_idx\<close> 3, so
  the last entry becomes \<^verbatim>\<open>None\<close>.
\<close>

theorem cleanup_twice_counterexample:
  "cleanup_duplicate_verts (fst (cleanup_duplicate_verts quad_verts quad_faces))
       (snd (cleanup_duplicate_verts quad_verts quad_faces))
     \<noteq> cleanup_duplicate_verts quad_verts quad_faces"
  by (simp only: quad_cleanup fst_conv snd_conv quad_cleanup2) simp


text \<open>
  C9, amended. A second pass leaves the vertex list of the first pass unchanged: no
  further merge occurs. It leaves the face list unchanged as well when every vertex that
  survived the first pass has its position as \<^verbatim>\<open>tmp_idx\<close>.
\<close>

theorem cleanup_twice:
  "fst (cleanup_duplicate_verts (fst (cleanup_duplicate_verts vs fs)) (snd (cleanup_duplicate_verts vs fs)))
     = fst (cleanup_duplicate_verts vs fs)
   \<and> (map v_tmp_idx (fst (cleanup_duplicate_verts vs fs)) = [0..<length (fst (cleanup_duplicate_verts vs fs))]
      \<longrightarrow> cleanup_duplicate_verts (fst (cleanup_duplicate_verts vs fs)) (snd (cleanup_duplicate_verts vs fs))
            = cleanup_duplicate_verts vs fs)"
proof (intro conjI impI)
  show "fst (cleanup_duplicate_verts (fst (cleanup_duplicate_verts vs fs)) (snd (cleanup_duplicate_verts vs fs)))
     = fst (cleanup_duplicate_verts vs fs)"
    by (simp only: cleanup_fst dedup_list_idem)
next
  assume "map v_tmp_idx (fst (cleanup_duplicate_verts vs fs)) = [0..<length (fst (cleanup_duplicate_verts vs fs))]"
  then have "map v_tmp_idx (dedup_list vs) = [0..<length (dedup_list vs)]"
    by (simp only: cleanup_fst)
  then show "cleanup_duplicate_verts (fst (cleanup_duplicate_verts vs fs)) (snd (cleanup_duplicate_verts vs fs))
            = cleanup_duplicate_verts vs fs"
    by (rule cleanup_second_pass)
qed

text \<open>
  C9, amended, at a triangle with three distinct corners: the first pass removes nothing,
  and the second pass changes neither list.
\<close>

theorem cleanup_twice_witness:
  "map v_tmp_idx (fst (cleanup_duplicate_verts tri_verts tri_faces))
     = [0..<length (fst (cleanup_duplicate_verts tri_verts tri_faces))]
   \<and> cleanup_duplicate_verts (fst (cleanup_duplicate_verts tri_verts tri_faces))
        (snd (cleanup_duplicate_verts tri_verts tri_faces))
      = cleanup_duplicate_verts tri_verts tri_faces"
proof -
  have h: "map v_tmp_idx (fst (cleanup_duplicate_verts tri_verts tri_faces))
     = [0..<length (fst (cleanup_duplicate_verts tri_verts tri_faces))]"
    by (simp add: tri_cleanup) (simp add: tri_verts_def quad_corner_def upt_rec)
  with cleanup_twice [of tri_verts tri_faces] show ?thesis by blast
qed


text \<open>
  C6. For a mesh whose first armature modifier names an armature, the geometry that
  \<^verbatim>\<open>populate_geometry_with_mesh_data\<close> builds carries a skin whose bone-matrix list has
  one entry per bone of the armature (and \<^verbatim>\<open>num_bones\<close> is that count); the geometry has
  one vertex per deduplicated corner, and for each the bone-index and bone-weight arrays
  are the corner's influences, at most four, followed by zeros up to four entries.
\<close>

theorem skin_binding_shape:
  assumes arm: "find_armature (o_modifiers ob) = Some arm"
    and res: "populate_geometry_with_mesh_data ob new_Geometry = Inr g"
  shows "\<exists>skin. g_ext_skin g = Some skin
           \<and> length (sk_bone_matrices skin) = length (ar_bones arm)
           \<and> sk_num_bones skin = length (ar_bones arm)
           \<and> g_vertices g = map v_co (exported_corners ob)
           \<and> sk_vertex_bone_indices skin =
                 map (\<lambda>v. map fst (v_bones v) @ replicate (4 - length (v_bones v)) 0)
                     (exported_corners ob)
           \<and> sk_vertex_bone_weights skin =
                 map (\<lambda>v. map snd (v_bones v) @ replicate (4 - length (v_bones v)) 0)
                     (exported_corners ob)
           \<and> (\<forall>v \<in> set (exported_corners ob). length (v_bones v) \<le> 4)"
proof -
  from res obtain skin_plg bone_groups vs fs g1 where
    sk: "get_skin_plg_and_bone_groups ob = Inr (skin_plg, bone_groups)"
    and co: "collect_polygons (o_mesh ob) bone_groups 0 (me_polygons (o_mesh ob)) [] [] = Inr (vs, fs)"
    and v: "populate_geometry_from_vertices_data (fst (cleanup_duplicate_verts vs fs)) skin_plg
       (o_mesh ob) ob new_Geometry = Inr g1"
    and f: "populate_geometry_from_faces_data (snd (cleanup_duplicate_verts vs fs)) g1 = Inr g"
    by (rule mesh_data_split)
  have ec: "exported_corners ob = fst (cleanup_duplicate_verts vs fs)"
    by (simp add: exported_corners_def sk co)
  from get_skin_result [OF arm sk] obtain skin where
    skin: "skin_plg = Some skin" "length (sk_bone_matrices skin) = length (ar_bones arm)"
      "sk_num_bones skin = length (ar_bones arm)"
      "sk_vertex_bone_indices skin = []" "sk_vertex_bone_weights skin = []"
    by blast
  from vertices_data_skin [OF v [unfolded skin(1)]] faces_data_keeps [OF f]
  have g: "g_ext_skin g = Some (skin_after skin (exported_corners ob))"
    "g_vertices g = map v_co (exported_corners ob)"
    by (simp_all add: ec new_Geometry_def)
  have "corners_ok vs" by (rule collect_polygons_ok [OF co corners_ok_Nil])
  moreover have "set (exported_corners ob) \<subseteq> set vs"
    unfolding ec cleanup_fst by (rule set_dedup_list)
  ultimately have le: "\<forall>v \<in> set (exported_corners ob). length (v_bones v) \<le> 4"
    by (auto simp: corners_ok_def)
  show ?thesis
    using g skin le by (simp add: skin_after_def pad4_def)
qed

text \<open>
  C6, at the skinned triangle: two bones and two bone matrices; the corners have one, two
  and no influence, and their arrays are padded with zeros.
\<close>

theorem skin_binding_shape_witness:
  "find_armature (o_modifiers tri_obj) = Some tri_armature
   \<and> populate_geometry_with_mesh_data tri_obj new_Geometry = Inr tri_geometry
   \<and> g_ext_skin tri_geometry = Some tri_skin
   \<and> length (sk_bone_matrices tri_skin) = length (ar_bones tri_armature)
   \<and> sk_vertex_bone_indices tri_skin = [[0, 0, 0, 0], [0, 1, 0, 0], [0, 0, 0, 0]]
   \<and> sk_vertex_bone_weights tri_skin = [[1, 0, 0, 0], [1 / 2, 1 / 2, 0, 0], [0, 0, 0, 0]]
   \<and> map v_bones (exported_corners tri_obj) = [[(0, 1)], [(0, 1 / 2), (1, 1 / 2)], []]"
proof -
  from skin_binding_shape [OF tri_find_armature tri_mesh_data] obtain skin where
    s: "g_ext_skin tri_geometry = Some skin"
       "length (sk_bone_matrices skin) = length (ar_bones tri_armature)"
       "sk_vertex_bone_indices skin =
          map (\<lambda>v. map fst (v_bones v) @ replicate (4 - length (v_bones v)) 0) (exported_corners tri_obj)"
       "sk_vertex_bone_weights skin =
          map (\<lambda>v. map snd (v_bones v) @ replicate (4 - length (v_bones v)) 0) (exported_corners tri_obj)"
    by blast
  have e: "g_ext_skin tri_geometry = Some tri_skin"
    by (simp add: tri_geometry_def new_Geometry_def)
  with s(1) have sk: "skin = tri_skin" by simp
  have c: "map v_bones (exported_corners tri_obj) = [[(0, 1)], [(0, 1 / 2), (1, 1 / 2)], []]"
    by (simp add: tri_exported_corners tri_corners_def)
  have i: "sk_vertex_bone_indices tri_skin = [[0, 0, 0, 0], [0, 1, 0, 0], [0, 0, 0, 0]]"
    using s(3) [unfolded sk] by (simp add: tri_exported_corners tri_corners_def numeral_eq_Suc)
  have w: "sk_vertex_bone_weights tri_skin = [[1, 0, 0, 0], [1 / 2, 1 / 2, 0, 0], [0, 0, 0, 0]]"
    using s(4) [unfolded sk] by (simp add: tri_exported_corners tri_corners_def numeral_eq_Suc)
  from tri_find_armature tri_mesh_data e s(2) [unfolded sk] i w c show ?thesis by blast
qed

text \<open>
  C8. The geometry that \<^verbatim>\<open>populate_geometry_with_mesh_data\<close> builds from a fresh
  \<^verbatim>\<open>dff.Geometry()\<close> has at most \<^verbatim>\<open>max_uv_layers\<close> UV layers, and that maximum is 0 when
  \<^verbatim>\<open>uv_map1\<close> is unset, 1 when only \<^verbatim>\<open>uv_map1\<close> is set, and 2 when both are set.
\<close>

theorem uv_layer_count_bounded:
  assumes "populate_geometry_with_mesh_data ob new_Geometry = Inr g"
  shows "length (g_uv_layers g) \<le> max_uv_layers ob
       \<and> max_uv_layers ob = (if o_uv_map1 ob then (if o_uv_map2 ob then 2 else 1) else 0)"
  using mesh_data_uv [OF assms] by (simp add: new_Geometry_def max_uv_layers_cases)

text \<open>
  C8, at the skinned triangle: the mesh has two UV layers, only \<^verbatim>\<open>uv_map1\<close> is set, and
  one layer is emitted.
\<close>

theorem uv_layer_count_bounded_witness:
  "populate_geometry_with_mesh_data tri_obj new_Geometry = Inr tri_geometry
   \<and> length (me_uv_layers (o_mesh tri_obj)) = 2
   \<and> length (g_uv_layers tri_geometry) \<le> max_uv_layers tri_obj
   \<and> max_uv_layers tri_obj = 1"
  using uv_layer_count_bounded [OF tri_mesh_data] tri_mesh_data
  by (simp add: tri_obj_def plain_obj_def tri_mesh_def)

end
